theory Spec2Isabelle
  imports Main "HOL-Library.List_Lexorder" "HOL-Library.Char_ord" "HOL-Library.Product_Lexorder"
begin

section \<open>Data model\<close>

text \<open>
  A pandas DataFrame read with \<^verbatim>\<open>dtype=str\<close>: an ordered list of column names and a
  list of rows. A row maps a column name to its cell; \<open>None\<close> is pandas' NaN
  (a missing value), \<open>Some s\<close> is the string \<open>s\<close>. Only the cells of the columns
  listed in \<open>columns\<close> belong to the frame.
\<close>

type_synonym row = "string \<rightharpoonup> string"

record dataframe =
  columns :: "string list"
  rows :: "row list"

text \<open>
  The pivot table: a frame indexed by the pair (main value, secondary value) with one
  count column. pandas keeps the index of a grouped or outer-joined frame sorted, so the
  table is the list of its index entries in index order, each with its count.
\<close>

type_synonym pivot_key = "string \<times> string"
type_synonym count_table = "(pivot_key \<times> nat) list"

section \<open>Errors, configuration and the regular-expression library\<close>

text \<open>
  The exceptions of the pipeline. \<open>KeyError c\<close>: column \<open>c\<close> is not in the frame.
  \<open>ReError p\<close>: \<^verbatim>\<open>re.compile\<close> rejects the pattern \<open>p\<close>. \<open>AttributeError\<close>: a method
  or an attribute that it lacks is read, on \<^verbatim>\<open>None\<close> or on the configuration.
  \<open>ZeroDivisionError\<close> is the only exception that the loop of \<^verbatim>\<open>main\<close> handles.
\<close>

datatype error =
  KeyError string
| ReError string
| AttributeError
| ZeroDivisionError

text \<open>
  Python's \<^verbatim>\<open>re\<close> module is a library: the pipeline takes it as a parameter.
  \<open>re_compiles p\<close>: the pattern compiles; \<open>re_search p s\<close>: some substring of \<open>s\<close>
  matches \<open>p\<close> (\<^verbatim>\<open>Series.str.contains\<close>); \<open>re_fullmatch p s\<close>: the whole of \<open>s\<close>
  matches \<open>p\<close> (\<^verbatim>\<open>Series.str.fullmatch\<close>).
\<close>

record re_engine =
  re_compiles :: "string \<Rightarrow> bool"
  re_search :: "string \<Rightarrow> string \<Rightarrow> bool"
  re_fullmatch :: "string \<Rightarrow> string \<Rightarrow> bool"

text \<open>
  The class \<^verbatim>\<open>Config\<close>. An exclude pattern that is the empty string is falsy in
  Python and switches its filter off. \<open>additional_filters\<close> is the dict in insertion
  order. \<open>merge_output_cells\<close> is \<open>None\<close> for a class without that attribute, as the
  one of \<^verbatim>\<open>config.py\<close>; \<^verbatim>\<open>config-nl.py\<close> sets it to \<^verbatim>\<open>False\<close>. The folders and the
  logger's setup are left out.
\<close>

record config =
  main_column :: string
  main_column_exclude :: string
  secondary_column :: string
  secondary_column_exclude :: string
  additional_filters :: "(string \<times> string) list"
  merge_output_cells :: "bool option"

section \<open>\<^verbatim>\<open>filter_dataframe\<close>\<close>

text \<open>\<^verbatim>\<open>dataframe.dropna(how='all', axis=1)\<close>: a column stays when some row has a
  value in it; a frame without rows loses every column.\<close>

definition dropna_columns :: "dataframe \<Rightarrow> dataframe" where
  "dropna_columns df =
     df\<lparr>columns := filter (\<lambda>c. list_ex (\<lambda>r. r c \<noteq> None) (rows df)) (columns df)\<rparr>"

text \<open>\<^verbatim>\<open>dataframe[~dataframe[col].str.contains(pat, na=False)]\<close>: the column lookup
  raises \<open>KeyError\<close>, then the pattern is compiled, then the rows whose value contains a
  match are dropped; NaN counts as no match.\<close>

definition str_contains :: "re_engine \<Rightarrow> string \<Rightarrow> string option \<Rightarrow> bool" where
  "str_contains re pat cell = (case cell of None \<Rightarrow> False | Some v \<Rightarrow> re_search re pat v)"

definition exclude_rows :: "re_engine \<Rightarrow> string \<Rightarrow> string \<Rightarrow> dataframe \<Rightarrow> error + dataframe" where
  "exclude_rows re col pat df =
     (if col \<notin> set (columns df) then Inl (KeyError col)
      else if \<not> re_compiles re pat then Inl (ReError pat)
      else Inr (df\<lparr>rows := filter (\<lambda>r. \<not> str_contains re pat (r col)) (rows df)\<rparr>))"

text \<open>\<^verbatim>\<open>dataframe.fillna('').astype(str)\<close>: NaN becomes the empty string.\<close>

definition fillna_row :: "row \<Rightarrow> row" where
  "fillna_row r = (\<lambda>c. Some (case r c of None \<Rightarrow> [] | Some v \<Rightarrow> v))"

definition fillna_str :: "dataframe \<Rightarrow> dataframe" where
  "fillna_str df = df\<lparr>rows := map fillna_row (rows df)\<rparr>"

definition str_fullmatch :: "re_engine \<Rightarrow> string \<Rightarrow> string option \<Rightarrow> bool" where
  "str_fullmatch re pat cell = (case cell of None \<Rightarrow> False | Some v \<Rightarrow> re_fullmatch re pat v)"

definition skip_message :: "string \<Rightarrow> string" where
  "skip_message c =
     ''Couldn'' @ [CHR 0x27] @ ''t find column '' @ c @ '' in the dataframe, skipping filter.''"

text \<open>
  The loop over \<^verbatim>\<open>config.additional_filters.items()\<close>, with the frame and the log
  (the messages given to \<^verbatim>\<open>config.logger.error\<close>) as its state. The \<open>KeyError\<close> of a
  missing column is caught: the message is logged and the loop continues. A pattern
  that does not compile is not caught.
\<close>

fun additional_filter_loop ::
  "re_engine \<Rightarrow> (string \<times> string) list \<Rightarrow> dataframe \<Rightarrow> string list \<Rightarrow> error + (dataframe \<times> string list)"
where
  "additional_filter_loop re [] df log = Inr (df, log)"
| "additional_filter_loop re ((filter_column, filter_values) # fs) df log =
     (if filter_column \<notin> set (columns df)
      then additional_filter_loop re fs df (log @ [skip_message filter_column])
      else if \<not> re_compiles re filter_values then Inl (ReError filter_values)
      else additional_filter_loop re fs
             (df\<lparr>rows := filter (\<lambda>r. str_fullmatch re filter_values (r filter_column)) (rows df)\<rparr>)
             log)"

definition filter_dataframe :: "re_engine \<Rightarrow> config \<Rightarrow> dataframe \<Rightarrow> error + (dataframe \<times> string list)" where
  "filter_dataframe re cfg dataframe =
     (case (if main_column_exclude cfg \<noteq> []
            then exclude_rows re (main_column cfg) (main_column_exclude cfg) (dropna_columns dataframe)
            else Inr (dropna_columns dataframe)) of
        Inl e \<Rightarrow> Inl e
      | Inr df1 \<Rightarrow>
         (case (if secondary_column_exclude cfg \<noteq> []
                then exclude_rows re (secondary_column cfg) (secondary_column_exclude cfg) df1
                else Inr df1) of
            Inl e \<Rightarrow> Inl e
          | Inr df2 \<Rightarrow> additional_filter_loop re (additional_filters cfg) (fillna_str df2) []))"

section \<open>\<^verbatim>\<open>pivot_table\<close>\<close>

text \<open>
  Python's \<^verbatim>\<open>str.strip()\<close> removes the whitespace code points at both ends of the
  string. A string is the list of the bytes of its UTF-8 encoding, in which a
  whitespace code point has one, two or three bytes: U+0009 to U+000D and U+001C to
  U+0020 (one byte); U+0085 and U+00A0 (C2 85, C2 A0); U+1680 (E1 9A 80); U+2000 to
  U+200A, U+2028, U+2029 and U+202F (E2 80 and a byte 80 to 8A, A8, A9 or AF); U+205F
  (E2 81 9F); U+3000 (E3 80 80).
\<close>

definition is_space1 :: "char \<Rightarrow> bool" where
  "is_space1 c = (let n = (of_char c :: nat) in (9 \<le> n \<and> n \<le> 13) \<or> (28 \<le> n \<and> n \<le> 32))"

definition is_space2 :: "char \<Rightarrow> char \<Rightarrow> bool" where
  "is_space2 a b = (a = CHR 0xC2 \<and> (b = CHR 0x85 \<or> b = CHR 0xA0))"

definition is_space3 :: "char \<Rightarrow> char \<Rightarrow> char \<Rightarrow> bool" where
  "is_space3 a b c = (let n = (of_char c :: nat) in
     (a = CHR 0xE1 \<and> b = CHR 0x9A \<and> c = CHR 0x80) \<or>
     (a = CHR 0xE2 \<and> b = CHR 0x80 \<and> ((128 \<le> n \<and> n \<le> 138) \<or> n = 168 \<or> n = 169 \<or> n = 175)) \<or>
     (a = CHR 0xE2 \<and> b = CHR 0x81 \<and> c = CHR 0x9F) \<or>
     (a = CHR 0xE3 \<and> b = CHR 0x80 \<and> c = CHR 0x80))"

text \<open>The whitespace code points at the front of a string are dropped; with
  \<open>backwards\<close> the string is read from its end, each code point with its last byte
  first.\<close>

fun drop_whitespace :: "bool \<Rightarrow> string \<Rightarrow> string" where
  "drop_whitespace backwards (a # b # c # cs) =
     (if is_space1 a then drop_whitespace backwards (b # c # cs)
      else if (if backwards then is_space2 b a else is_space2 a b)
        then drop_whitespace backwards (c # cs)
      else if (if backwards then is_space3 c b a else is_space3 a b c)
        then drop_whitespace backwards cs
      else a # b # c # cs)"
| "drop_whitespace backwards [a, b] =
     (if is_space1 a then drop_whitespace backwards [b]
      else if (if backwards then is_space2 b a else is_space2 a b) then []
      else [a, b])"
| "drop_whitespace backwards [a] = (if is_space1 a then [] else [a])"
| "drop_whitespace backwards [] = []"

definition str_strip :: "string \<Rightarrow> string" where
  "str_strip s = rev (drop_whitespace True (rev (drop_whitespace False s)))"

text \<open>\<^verbatim>\<open>.str.strip().astype(bool)\<close>: the stripped string is truthy when it is not
  empty. A NaN cell stays NaN, which is truthy.\<close>

definition strip_nonempty :: "string option \<Rightarrow> bool" where
  "strip_nonempty cell = (case cell of None \<Rightarrow> True | Some v \<Rightarrow> str_strip v \<noteq> [])"

text \<open>The index entry of a row; \<^verbatim>\<open>groupby\<close> leaves out a row with NaN in a key.\<close>

definition row_key :: "config \<Rightarrow> row \<Rightarrow> pivot_key option" where
  "row_key cfg r =
     (case r (main_column cfg) of None \<Rightarrow> None
      | Some m \<Rightarrow> (case r (secondary_column cfg) of None \<Rightarrow> None | Some s \<Rightarrow> Some (m, s)))"

text \<open>The index entry of a row whose main cell the count column has overwritten with the
  number 1, written here as the string \<open>1\<close>.\<close>

definition overwritten_key :: "config \<Rightarrow> row \<Rightarrow> pivot_key option" where
  "overwritten_key cfg r =
     (case r (secondary_column cfg) of None \<Rightarrow> None | Some s \<Rightarrow> Some (''1'', s))"

text \<open>Grouping by the key with \<^verbatim>\<open>aggfunc=np.count_nonzero\<close>: one entry per distinct
  key, in sorted order, with the number of nonzero cells that the rows of that key have
  outside the index, \<open>cells\<close> for each row.\<close>

definition count_groups :: "nat \<Rightarrow> pivot_key list \<Rightarrow> count_table" where
  "count_groups cells ks = map (\<lambda>k. (k, cells * count_list ks k)) (sort (remdups ks))"

definition count_column :: "config \<Rightarrow> string" where
  "count_column cfg = ''Count of '' @ secondary_column cfg"

text \<open>
  \<^verbatim>\<open>new_df[count_column] = 1\<close> adds a column of ones, which the pivot counts: one
  nonzero cell for each row. When the main column has the name of the count column, the
  assignment overwrites (or creates) the main column instead: every row has the main
  value 1, and the pivot, left without a column outside the index, counts the nonzero
  cells of the two index columns, two for each row.
\<close>

definition pivot_table :: "config \<Rightarrow> dataframe \<Rightarrow> error + count_table" where
  "pivot_table cfg dataframe =
     (if secondary_column cfg \<notin> set (columns dataframe) then Inl (KeyError (secondary_column cfg))
      else if count_column cfg = main_column cfg
        then Inr (count_groups 2 (List.map_filter (overwritten_key cfg)
                    (filter (\<lambda>r. strip_nonempty (r (secondary_column cfg))) (rows dataframe))))
      else if main_column cfg \<notin> set (columns dataframe) then Inl (KeyError (main_column cfg))
      else Inr (count_groups 1 (List.map_filter (row_key cfg)
                  (filter (\<lambda>r. strip_nonempty (r (secondary_column cfg))) (rows dataframe)))))"

section \<open>Merging two pivot tables (\<^verbatim>\<open>pivot_chunked_file\<close>, the else branch)\<close>

text \<open>
  \<^verbatim>\<open>pd.merge(a, b, left_index=True, right_index=True, how='outer').sum(axis=1)\<close>:
  the outer join has one row for every index entry of either frame, in sorted order,
  with NaN where a frame lacks the entry; the row sum skips NaN.
\<close>

definition count_or_zero :: "count_table \<Rightarrow> pivot_key \<Rightarrow> nat" where
  "count_or_zero t k = (case map_of t k of None \<Rightarrow> 0 | Some n \<Rightarrow> n)"

definition merge :: "count_table \<Rightarrow> count_table \<Rightarrow> count_table" where
  "merge a b =
     map (\<lambda>k. (k, count_or_zero a k + count_or_zero b k))
         (sort (remdups (map fst a @ map fst b)))"

section \<open>\<^verbatim>\<open>pivot_chunked_file\<close>\<close>

text \<open>
  The loop over the chunks, with \<^verbatim>\<open>overall_pivot_df\<close> as its state (\<open>None\<close> before
  the first table that is not empty). The log of \<^verbatim>\<open>filter_dataframe\<close> is not part of
  the result.
\<close>

fun pivot_chunks ::
  "re_engine \<Rightarrow> config \<Rightarrow> dataframe list \<Rightarrow> count_table option \<Rightarrow> error + count_table option"
where
  "pivot_chunks re cfg [] overall_pivot_df = Inr overall_pivot_df"
| "pivot_chunks re cfg (chunk # reader) overall_pivot_df =
     (case filter_dataframe re cfg chunk of
        Inl e \<Rightarrow> Inl e
      | Inr (filtered_chunk, log) \<Rightarrow>
         (case pivot_table cfg filtered_chunk of
            Inl e \<Rightarrow> Inl e
          | Inr pivot_chunk \<Rightarrow>
             (if pivot_chunk = [] then pivot_chunks re cfg reader overall_pivot_df
              else (case overall_pivot_df of
                      None \<Rightarrow> pivot_chunks re cfg reader (Some pivot_chunk)
                    | Some t \<Rightarrow> pivot_chunks re cfg reader (Some (merge t pivot_chunk))))))"

text \<open>
  A csv file: its size in bytes, its header and its records, every field a string.
  The records are taken to have one field per header name and the header names to be
  distinct.
\<close>

record csv_file =
  path :: string
  size_bytes :: nat
  header :: "string list"
  records :: "string list list"

text \<open>The strings that \<^verbatim>\<open>pd.read_csv\<close> reads as NaN unless \<^verbatim>\<open>na_filter=False\<close>
  (the default list of pandas 1.x).\<close>

definition na_values :: "string list" where
  "na_values = ['''', ''#N/A'', ''#N/A N/A'', ''#NA'', ''-1.#IND'', ''-1.#QNAN'', ''-NaN'',
     ''-nan'', ''1.#IND'', ''1.#QNAN'', ''<NA>'', ''N/A'', ''NA'', ''NULL'', ''NaN'', ''n/a'',
     ''nan'', ''null'']"

definition parse_record :: "bool \<Rightarrow> string list \<Rightarrow> string list \<Rightarrow> row" where
  "parse_record na_filter hdr record =
     (\<lambda>c. case map_of (zip hdr record) c of
             None \<Rightarrow> None
           | Some v \<Rightarrow> if na_filter \<and> v \<in> set na_values then None else Some v)"

definition read_frame :: "bool \<Rightarrow> string list \<Rightarrow> string list list \<Rightarrow> dataframe" where
  "read_frame na_filter hdr recs = \<lparr>columns = hdr, rows = map (parse_record na_filter hdr) recs\<rparr>"

text \<open>\<^verbatim>\<open>chunksize=n\<close>: the records in slices of \<open>n\<close>; a file without records gives
  one chunk without rows.\<close>

function chunks_of :: "nat \<Rightarrow> 'a list \<Rightarrow> 'a list list" where
  "chunks_of n xs = (if n = 0 \<or> xs = [] then [] else take n xs # chunks_of n (drop n xs))"
  by pat_completeness auto
termination
  by (relation "measure (\<lambda>(n, xs). length xs)") auto

definition read_csv_chunks :: "nat \<Rightarrow> csv_file \<Rightarrow> dataframe list" where
  "read_csv_chunks chunksize f =
     map (read_frame False (header f))
         (if records f = [] then [[]] else chunks_of chunksize (records f))"

definition pivot_chunked_file :: "re_engine \<Rightarrow> config \<Rightarrow> csv_file \<Rightarrow> error + count_table option" where
  "pivot_chunked_file re cfg f = pivot_chunks re cfg (read_csv_chunks 100000 f) None"

section \<open>\<^verbatim>\<open>pivot_file\<close> and \<^verbatim>\<open>main\<close>\<close>

definition MAX_FILE_SIZE :: nat where
  "MAX_FILE_SIZE = 100 * 2 ^ 20"

text \<open>The condition of the \<^verbatim>\<open>if\<close> in \<^verbatim>\<open>pivot_file\<close>, as the choice it makes.\<close>

datatype mode = WHOLE_FILE | CHUNKED

definition route :: "nat \<Rightarrow> mode" where
  "route input_byte_size = (if input_byte_size > MAX_FILE_SIZE then CHUNKED else WHOLE_FILE)"

text \<open>The else branch of \<^verbatim>\<open>pivot_file\<close>: read the whole file, filter, pivot.\<close>

definition filter_then_pivot :: "re_engine \<Rightarrow> config \<Rightarrow> dataframe \<Rightarrow> error + count_table" where
  "filter_then_pivot re cfg df =
     (case filter_dataframe re cfg df of
        Inl e \<Rightarrow> Inl e
      | Inr (filtered_df, log) \<Rightarrow> pivot_table cfg filtered_df)"

definition pivot_whole_file :: "re_engine \<Rightarrow> config \<Rightarrow> csv_file \<Rightarrow> error + count_table" where
  "pivot_whole_file re cfg f = filter_then_pivot re cfg (read_frame True (header f) (records f))"

definition pivot_file :: "re_engine \<Rightarrow> config \<Rightarrow> csv_file \<Rightarrow> error + count_table option" where
  "pivot_file re cfg f =
     (case route (size_bytes f) of
        CHUNKED \<Rightarrow> pivot_chunked_file re cfg f
      | WHOLE_FILE \<Rightarrow>
         (case pivot_whole_file re cfg f of Inl e \<Rightarrow> Inl e | Inr t \<Rightarrow> Inr (Some t)))"

text \<open>\<^verbatim>\<open>write_dataframe_to_output\<close>: \<^verbatim>\<open>dataframe.to_excel\<close> on \<^verbatim>\<open>None\<close> raises
  \<open>AttributeError\<close>, and so does \<^verbatim>\<open>config.merge_output_cells\<close> for a configuration
  without that attribute; otherwise the table is written for the file.\<close>

definition write_dataframe_to_output ::
  "count_table option \<Rightarrow> csv_file \<Rightarrow> config \<Rightarrow> error + (string \<times> count_table)"
where
  "write_dataframe_to_output dataframe f cfg =
     (case dataframe of
        None \<Rightarrow> Inl AttributeError
      | Some t \<Rightarrow>
         (case merge_output_cells cfg of
            None \<Rightarrow> Inl AttributeError
          | Some merge_cells \<Rightarrow> Inr (path f, t)))"

definition process_file :: "re_engine \<Rightarrow> config \<Rightarrow> csv_file \<Rightarrow> error + (string \<times> count_table)" where
  "process_file re cfg f =
     (case pivot_file re cfg f of
        Inl e \<Rightarrow> Inl e
      | Inr pivot_df \<Rightarrow> write_dataframe_to_output pivot_df f cfg)"

text \<open>
  The loop of \<^verbatim>\<open>main\<close> over the input files: the body is in a \<^verbatim>\<open>try\<close> whose handler
  is \<^verbatim>\<open>except ZeroDivisionError\<close>. Any other exception leaves the loop and ends the
  run. The result is the list of tables written, or the exception that ended the run.
\<close>

fun main_loop :: "re_engine \<Rightarrow> config \<Rightarrow> csv_file list \<Rightarrow> error + (string \<times> count_table) list" where
  "main_loop re cfg [] = Inr []"
| "main_loop re cfg (input_file # input_files) =
     (case process_file re cfg input_file of
        Inl e \<Rightarrow> (if e = ZeroDivisionError then main_loop re cfg input_files else Inl e)
      | Inr written \<Rightarrow>
         (case main_loop re cfg input_files of
            Inl e \<Rightarrow> Inl e
          | Inr ws \<Rightarrow> Inr (written # ws)))"

section \<open>An instance of the regular-expression library\<close>

text \<open>
  The patterns of the two configuration files are alternations of literal strings, with
  some characters escaped by a backslash. On such a pattern Python's \<^verbatim>\<open>re\<close> is decided
  by string comparison: the pattern compiles, \<^verbatim>\<open>search\<close> succeeds when an alternative
  occurs in the string, \<^verbatim>\<open>fullmatch\<close> when an alternative is the string.
  \<open>literal_alternatives\<close> reads such a pattern and gives \<open>None\<close> for a pattern with any
  other operator. \<open>literal_re\<close> is the engine on the patterns that it reads; on the
  others it is left unspecified, and nothing is stated of it there.
\<close>

definition is_alnum :: "char \<Rightarrow> bool" where
  "is_alnum c = (let n = (of_char c :: nat) in
     (48 \<le> n \<and> n \<le> 57) \<or> (65 \<le> n \<and> n \<le> 90) \<or> (97 \<le> n \<and> n \<le> 122))"

definition is_operator :: "char \<Rightarrow> bool" where
  "is_operator c = (c \<in> set ''.^$*+?{}[]()|'' \<or> c = CHR 0x5C)"

fun cons_first :: "char \<Rightarrow> string list \<Rightarrow> string list" where
  "cons_first c [] = [[c]]"
| "cons_first c (a # as) = (c # a) # as"

fun literal_alternatives :: "string \<Rightarrow> string list option" where
  "literal_alternatives [] = Some [[]]"
| "literal_alternatives [c] =
     (if c = CHR ''|'' then Some [[], []]
      else if is_operator c then None
      else Some [[c]])"
| "literal_alternatives (c # d # ds) =
     (if c = CHR 0x5C
      then (if is_alnum d \<or> (of_char d :: nat) \<ge> 128 then None
            else map_option (cons_first d) (literal_alternatives ds))
      else if c = CHR ''|'' then map_option ((#) []) (literal_alternatives (d # ds))
      else if is_operator c then None
      else map_option (cons_first c) (literal_alternatives (d # ds)))"

fun starts_with :: "string \<Rightarrow> string \<Rightarrow> bool" where
  "starts_with [] s = True"
| "starts_with (p # ps) [] = False"
| "starts_with (p # ps) (c # cs) = (p = c \<and> starts_with ps cs)"

fun occurs_in :: "string \<Rightarrow> string \<Rightarrow> bool" where
  "occurs_in p [] = (p = [])"
| "occurs_in p (c # cs) = (starts_with p (c # cs) \<or> occurs_in p cs)"

definition literal_re :: re_engine where
  "literal_re =
     \<lparr>re_compiles = (\<lambda>p. case literal_alternatives p of None \<Rightarrow> undefined
                         | Some alts \<Rightarrow> True),
      re_search = (\<lambda>p s. case literal_alternatives p of None \<Rightarrow> undefined
                          | Some alts \<Rightarrow> list_ex (\<lambda>a. occurs_in a s) alts),
      re_fullmatch = (\<lambda>p s. case literal_alternatives p of None \<Rightarrow> undefined
                             | Some alts \<Rightarrow> list_ex (\<lambda>a. a = s) alts)\<rparr>"

section \<open>Invariants of a pivot table\<close>

text \<open>The index of a table is strictly sorted, and every count is at least one.\<close>

definition index_sorted :: "count_table \<Rightarrow> bool" where
  "index_sorted t = (sorted (map fst t) \<and> distinct (map fst t))"

definition positive_counts :: "count_table \<Rightarrow> bool" where
  "positive_counts t = list_all (\<lambda>e. 1 \<le> snd e) t"

text \<open>No NaN in the cells of the listed columns: what \<^verbatim>\<open>pd.read_csv\<close> delivers with
  \<^verbatim>\<open>na_filter=False\<close>.\<close>

definition no_nan :: "string list \<Rightarrow> row list \<Rightarrow> bool" where
  "no_nan cs rs = list_all (\<lambda>r. list_all (\<lambda>c. r c \<noteq> None) cs) rs"

text \<open>Records with one field per header name and no field that \<^verbatim>\<open>pd.read_csv\<close>
  reads as NaN.\<close>

definition plain_records :: "string list \<Rightarrow> string list list \<Rightarrow> bool" where
  "plain_records hdr recs =
     list_all (\<lambda>record. length record = length hdr \<and> list_all (\<lambda>v. v \<notin> set na_values) record) recs"

text \<open>The result of \<^verbatim>\<open>filter_dataframe\<close> as its caller sees it: the frame or the
  exception, without the log.\<close>

definition without_log :: "error + (dataframe \<times> string list) \<Rightarrow> error + dataframe" where
  "without_log res = (case res of Inl e \<Rightarrow> Inl e | Inr (d, log) \<Rightarrow> Inr d)"

section \<open>Example data\<close>

text \<open>The configuration of \<^verbatim>\<open>config-nl.py\<close> without its patterns and filters, and
  the rows of the end-to-end example.\<close>

definition plain_config :: config where
  "plain_config = \<lparr>main_column = ''Destination'', main_column_exclude = [],
     secondary_column = ''Anchor'', secondary_column_exclude = [], additional_filters = [],
     merge_output_cells = Some False\<rparr>"

definition key_columns :: "string list" where
  "key_columns = [''Destination'', ''Anchor'']"

definition ny_blue :: row where
  "ny_blue = [''Destination'' \<mapsto> ''NY'', ''Anchor'' \<mapsto> ''Blue'']"

definition ny_blank :: row where
  "ny_blank = [''Destination'' \<mapsto> ''NY'', ''Anchor'' \<mapsto> []]"

definition la_red :: row where
  "la_red = [''Destination'' \<mapsto> ''LA'', ''Anchor'' \<mapsto> ''Red'']"

text \<open>The bytes of a csv text without quoting: every field, and a comma or a newline
  after each.\<close>

definition csv_bytes :: "string list \<Rightarrow> string list list \<Rightarrow> nat" where
  "csv_bytes hdr recs = sum_list (map (\<lambda>line. sum_list (map length line) + length line) (hdr # recs))"

definition csv_example :: "string list list \<Rightarrow> csv_file" where
  "csv_example recs = \<lparr>path = ''input/UK/a.csv'', size_bytes = csv_bytes key_columns recs,
     header = key_columns, records = recs\<rparr>"

text \<open>Rows with a \<open>Follow\<close> column, for the exclude patterns and the additional
  filters.\<close>

definition follow_columns :: "string list" where
  "follow_columns = [''Destination'', ''Anchor'', ''Follow'']"

definition rings_row :: row where
  "rings_row = [''Destination'' \<mapsto> ''Jewelry/14-carat/Rings'', ''Anchor'' \<mapsto> ''Rings'',
     ''Follow'' \<mapsto> ''Yes'']"

definition please_row :: row where
  "please_row = [''Destination'' \<mapsto> ''Shop'', ''Anchor'' \<mapsto> ''Home'',
     ''Follow'' \<mapsto> ''Yes please'']"

definition shop_row :: row where
  "shop_row = [''Destination'' \<mapsto> ''Shop'', ''Anchor'' \<mapsto> ''Home'', ''Follow'' \<mapsto> ''Yes'']"

definition anchor_please_row :: row where
  "anchor_please_row = [''Destination'' \<mapsto> ''Shop'', ''Anchor'' \<mapsto> ''Yes please'',
     ''Follow'' \<mapsto> ''Yes'']"

text \<open>Rows whose secondary value is three spaces, and a no-break space (U+00A0).\<close>

definition ny_spaces :: row where
  "ny_spaces = [''Destination'' \<mapsto> ''NY'', ''Anchor'' \<mapsto> ''   '']"

definition ny_nbsp :: row where
  "ny_nbsp = [''Destination'' \<mapsto> ''NY'', ''Anchor'' \<mapsto> [CHR 0xC2, CHR 0xA0]]"

text \<open>A configuration whose main column is the count column of an earlier output, and
  two rows of such an output.\<close>

definition recount_config :: config where
  "recount_config = \<lparr>main_column = ''Count of Anchor'', main_column_exclude = [],
     secondary_column = ''Anchor'', secondary_column_exclude = [], additional_filters = [],
     merge_output_cells = Some False\<rparr>"

definition recount_columns :: "string list" where
  "recount_columns = [''Anchor'', ''Count of Anchor'']"

definition blue_twice :: row where
  "blue_twice = [''Anchor'' \<mapsto> ''Blue'', ''Count of Anchor'' \<mapsto> ''2'']"

definition red_once :: row where
  "red_once = [''Anchor'' \<mapsto> ''Red'', ''Count of Anchor'' \<mapsto> ''1'']"

text \<open>A file of thirty million records \<open>NY,\<close>: 120000019 bytes.\<close>

definition big_csv :: csv_file where
  "big_csv = \<lparr>path = ''input/UK/big.csv'',
     size_bytes = csv_bytes key_columns (replicate 30000000 [''NY'', []]),
     header = key_columns, records = replicate 30000000 [''NY'', []]\<rparr>"

section \<open>Properties of \<open>merge\<close>\<close>

lemma sort_remdups_cong:
  "set xs = set ys \<Longrightarrow> sort (remdups xs) = sort (remdups ys)"
  by (rule sorted_distinct_set_unique) simp_all

lemma keys_merge: "map fst (merge a b) = sort (remdups (map fst a @ map fst b))"
  by (simp add: merge_def comp_def)

lemma set_keys_merge: "fst ` set (merge a b) = fst ` set a \<union> fst ` set b"
  using arg_cong [OF keys_merge, of set a b] by simp

lemma map_of_tabulate:
  "map_of (map (\<lambda>k. (k, f k)) ks) k = (if k \<in> set ks then Some (f k) else None)"
  by (induction ks) auto

lemma map_of_merge:
  "map_of (merge a b) k =
     (if k \<in> fst ` set a \<union> fst ` set b
      then Some (count_or_zero a k + count_or_zero b k) else None)"
  by (simp add: merge_def map_of_tabulate)

lemma count_or_zero_absent: "k \<notin> fst ` set t \<Longrightarrow> count_or_zero t k = 0"
  by (simp add: count_or_zero_def map_of_eq_None_iff [THEN iffD2])

lemma count_or_zero_merge:
  "count_or_zero (merge a b) k = count_or_zero a k + count_or_zero b k"
  by (cases "k \<in> fst ` set a \<union> fst ` set b")
     (simp_all add: count_or_zero_def [of "merge a b"] map_of_merge count_or_zero_absent)

lemma merge_commute: "merge a b = merge b a"
proof -
  have "sort (remdups (map fst a @ map fst b)) = sort (remdups (map fst b @ map fst a))"
    by (rule sort_remdups_cong) auto
  then show ?thesis by (simp add: merge_def add.commute)
qed

lemma merge_assoc: "merge (merge a b) c = merge a (merge b c)"
proof -
  have "sort (remdups (map fst (merge a b) @ map fst c))
      = sort (remdups (map fst a @ map fst (merge b c)))"
    by (rule sort_remdups_cong) (simp add: keys_merge Un_assoc)
  then show ?thesis
    unfolding merge_def [of "merge a b" c] merge_def [of a "merge b c"]
    by (simp add: count_or_zero_merge add.assoc)
qed

lemma tabulate_own_counts:
  "distinct (map fst a) \<Longrightarrow> map (\<lambda>k. (k, count_or_zero a k)) (map fst a) = a"
proof (induction a)
  case Nil
  then show ?case by simp
next
  case (Cons x xs)
  have "\<forall>y\<in>set xs. count_or_zero (x # xs) (fst y) = count_or_zero xs (fst y)"
    using Cons.prems by (cases x) (force simp: count_or_zero_def)
  then have "map (\<lambda>k. (k, count_or_zero (x # xs) k)) (map fst xs)
           = map (\<lambda>k. (k, count_or_zero xs k)) (map fst xs)"
    by simp
  with Cons show ?case by (cases x) (simp add: count_or_zero_def)
qed

lemma merge_Nil_right: "index_sorted a \<Longrightarrow> merge a [] = a"
proof -
  assume a: "index_sorted a"
  then have k: "sort (remdups (map fst a)) = map fst a"
    by (simp add: index_sorted_def distinct_remdups_id sorted_sort_id)
  from a have "distinct (map fst a)"
    by (simp add: index_sorted_def)
  then have "map (\<lambda>k. (k, count_or_zero a k)) (map fst a) = a"
    by (rule tabulate_own_counts)
  then show ?thesis by (simp add: merge_def k count_or_zero_def [of "[]"])
qed

lemma index_sorted_merge: "index_sorted (merge a b)"
  by (simp add: index_sorted_def keys_merge)

lemma count_or_zero_positive:
  "positive_counts t \<Longrightarrow> k \<in> fst ` set t \<Longrightarrow> 1 \<le> count_or_zero t k"
proof -
  assume p: "positive_counts t" and k: "k \<in> fst ` set t"
  from k obtain n where n: "map_of t k = Some n"
    by (cases "map_of t k") (simp_all add: map_of_eq_None_iff)
  then have "(k, n) \<in> set t" by (rule map_of_SomeD)
  with p have "1 \<le> n" by (auto simp: positive_counts_def list_all_iff)
  with n show ?thesis by (simp add: count_or_zero_def)
qed

lemma positive_counts_merge:
  assumes "positive_counts a" "positive_counts b"
  shows "positive_counts (merge a b)"
proof -
  have "1 \<le> count_or_zero a k + count_or_zero b k" if "k \<in> fst ` set a \<union> fst ` set b" for k
  proof (cases "k \<in> fst ` set a")
    case True
    then show ?thesis using count_or_zero_positive [OF assms(1), of k] by simp
  next
    case False
    with that have "k \<in> fst ` set b" by simp
    then show ?thesis using count_or_zero_positive [OF assms(2), of k] by simp
  qed
  then show ?thesis
    by (auto simp: positive_counts_def list_all_iff merge_def)
qed

text \<open>
  C2. The index of \<open>merge a b\<close> is the union of the two indexes; an entry of both tables
  has the sum of its two counts, an entry of one table only keeps that table's count.
\<close>

theorem merge_semantics:
  "fst ` set (merge a b) = fst ` set a \<union> fst ` set b \<and>
   (\<forall>k x y. map_of a k = Some x \<and> map_of b k = Some y \<longrightarrow> map_of (merge a b) k = Some (x + y)) \<and>
   (\<forall>k x. map_of a k = Some x \<and> map_of b k = None \<longrightarrow> map_of (merge a b) k = Some x) \<and>
   (\<forall>k y. map_of a k = None \<and> map_of b k = Some y \<longrightarrow> map_of (merge a b) k = Some y)"
proof -
  have in_keys: "k \<in> fst ` set t" if "map_of t k = Some n" for t :: count_table and k n
    using that by (metis map_of_eq_None_iff option.distinct(1))
  show ?thesis
    by (auto simp: set_keys_merge map_of_merge count_or_zero_def dest: in_keys)
qed

theorem merge_semantics_witness:
  "map_of [((''LA'', ''Red''), 1::nat)] (''LA'', ''Red'') = Some 1 \<and>
   map_of [((''NY'', ''Blue''), 2::nat), ((''LA'', ''Red''), 3)] (''LA'', ''Red'') = Some 3 \<and>
   map_of [((''LA'', ''Red''), 1::nat)] (''NY'', ''Blue'') = None \<and>
   map_of [((''NY'', ''Blue''), 2::nat), ((''LA'', ''Red''), 3)] (''NY'', ''Blue'') = Some 2 \<and>
   map_of (merge [((''LA'', ''Red''), 1)] [((''NY'', ''Blue''), 2), ((''LA'', ''Red''), 3)])
     (''LA'', ''Red'') = Some 4 \<and>
   map_of (merge [((''LA'', ''Red''), 1)] [((''NY'', ''Blue''), 2), ((''LA'', ''Red''), 3)])
     (''NY'', ''Blue'') = Some 2"
  using merge_semantics [of "[((''LA'', ''Red''), 1)]" "[((''NY'', ''Blue''), 2), ((''LA'', ''Red''), 3)]"]
  by simp

text \<open>
  C3. \<open>merge\<close> is commutative and associative, and the empty table is its identity on
  every table whose index is strictly sorted, as the index of every table that
  \<open>pivot_table\<close> or \<open>merge\<close> returns is.
\<close>

theorem merge_algebra:
  "merge a b = merge b a \<and>
   merge (merge a b) c = merge a (merge b c) \<and>
   (index_sorted a \<longrightarrow> merge a [] = a)"
  using merge_commute [of a b] merge_assoc [of a b c] merge_Nil_right [of a] by blast

theorem merge_algebra_witness:
  "index_sorted [((''LA'', ''Red''), 1), ((''NY'', ''Blue''), 2)] \<and>
   merge [((''LA'', ''Red''), 1), ((''NY'', ''Blue''), 2)] []
     = [((''LA'', ''Red''), 1), ((''NY'', ''Blue''), 2)]"
proof -
  have s: "index_sorted [((''LA'', ''Red''), 1), ((''NY'', ''Blue''), 2)]"
    by (simp add: index_sorted_def)
  with merge_algebra [of "[((''LA'', ''Red''), 1), ((''NY'', ''Blue''), 2)]" "[]" "[]"]
  show ?thesis by blast
qed

section \<open>Properties of the grouped count\<close>

declare chunks_of.simps [simp del]

lemma keys_count_groups: "map fst (count_groups w ks) = sort (remdups ks)"
  by (simp add: count_groups_def comp_def)

lemma count_groups_Nil_iff: "count_groups w ks = [] \<longleftrightarrow> ks = []"
proof -
  have "count_groups w ks = [] \<longleftrightarrow> set (sort (remdups ks)) = {}"
    unfolding count_groups_def by (simp only: map_is_Nil_conv set_empty)
  then show ?thesis by simp
qed

lemma count_or_zero_count_groups: "count_or_zero (count_groups w ks) k = w * count_list ks k"
  by (simp add: count_or_zero_def count_groups_def map_of_tabulate count_list_0_iff)

lemma merge_count_groups:
  "merge (count_groups w xs) (count_groups w ys) = count_groups w (xs @ ys)"
proof -
  have "sort (remdups (map fst (count_groups w xs) @ map fst (count_groups w ys)))
      = sort (remdups (xs @ ys))"
    by (rule sort_remdups_cong) (simp add: keys_count_groups)
  then have "merge (count_groups w xs) (count_groups w ys)
      = map (\<lambda>k. (k, w * count_list xs k + w * count_list ys k)) (sort (remdups (xs @ ys)))"
    unfolding merge_def by (simp only: count_or_zero_count_groups)
  then show ?thesis
    by (simp add: count_groups_def [of w "xs @ ys"] distrib_left)
qed

lemma sum_count_groups: "sum_list (map snd (count_groups w ks)) = w * length ks"
proof -
  have "sum_list (map snd (count_groups w ks))
      = sum_list (map (\<lambda>k. w * count_list ks k) (sort (remdups ks)))"
    by (simp add: count_groups_def comp_def)
  also have "\<dots> = w * sum_list (map (count_list ks) (sort (remdups ks)))"
    by (simp add: sum_list_const_mult)
  also have "sum_list (map (count_list ks) (sort (remdups ks)))
      = sum (count_list ks) (set (sort (remdups ks)))"
    by (rule sum_list_distinct_conv_sum_set) simp
  also have "\<dots> = length ks"
    by (simp add: sum_count_set)
  finally show ?thesis .
qed

lemma index_sorted_count_groups: "index_sorted (count_groups w ks)"
  by (simp add: index_sorted_def keys_count_groups)

lemma positive_count_groups: "1 \<le> w \<Longrightarrow> positive_counts (count_groups w ks)"
proof -
  assume w: "1 \<le> w"
  have "1 \<le> w * count_list ks k" if "k \<in> set ks" for k
  proof -
    from that count_list_0_iff [of ks k] have "1 \<le> count_list ks k"
      by (cases "count_list ks k") simp_all
    with w show ?thesis by (metis mult_le_mono nat_mult_1)
  qed
  then show ?thesis
    by (simp add: positive_counts_def list_all_iff count_groups_def)
qed

section \<open>The filters work row by row\<close>

lemma additional_filter_loop_rowwise:
  "\<exists>err msgs keep. \<forall>rs log.
     additional_filter_loop re fs \<lparr>columns = cs, rows = rs\<rparr> log =
       (case err of Some e \<Rightarrow> Inl e
        | None \<Rightarrow> Inr (\<lparr>columns = cs, rows = filter keep rs\<rparr>, log @ msgs))"
proof (induction fs)
  case Nil
  have "\<forall>rs log. additional_filter_loop re [] \<lparr>columns = cs, rows = rs\<rparr> log =
       (case None of Some e \<Rightarrow> Inl e
        | None \<Rightarrow> Inr (\<lparr>columns = cs, rows = filter (\<lambda>r. True) rs\<rparr>, log @ []))"
    by simp
  then show ?case by blast
next
  case (Cons f fs)
  obtain c p where f: "f = (c, p)" by (cases f)
  from Cons.IH obtain err msgs keep where ih:
    "\<And>rs log. additional_filter_loop re fs \<lparr>columns = cs, rows = rs\<rparr> log =
       (case err of Some e \<Rightarrow> Inl e
        | None \<Rightarrow> Inr (\<lparr>columns = cs, rows = filter keep rs\<rparr>, log @ msgs))"
    by blast
  show ?case
  proof (cases "c \<in> set cs")
    case False
    have "\<forall>rs log. additional_filter_loop re (f # fs) \<lparr>columns = cs, rows = rs\<rparr> log =
       (case err of Some e \<Rightarrow> Inl e
        | None \<Rightarrow> Inr (\<lparr>columns = cs, rows = filter keep rs\<rparr>, log @ (skip_message c # msgs)))"
      using False by (simp add: f ih split: option.split)
    then show ?thesis by blast
  next
    case True
    show ?thesis
    proof (cases "re_compiles re p")
      case False
      have "\<forall>rs log. additional_filter_loop re (f # fs) \<lparr>columns = cs, rows = rs\<rparr> log =
         (case Some (ReError p) of Some e \<Rightarrow> Inl e
          | None \<Rightarrow> Inr (\<lparr>columns = cs, rows = filter keep rs\<rparr>, log @ msgs))"
        using True False by (simp add: f)
      then show ?thesis by blast
    next
      case c: True
      have "\<forall>rs log. additional_filter_loop re (f # fs) \<lparr>columns = cs, rows = rs\<rparr> log =
         (case err of Some e \<Rightarrow> Inl e
          | None \<Rightarrow> Inr (\<lparr>columns = cs,
               rows = filter (\<lambda>r. str_fullmatch re p (r c) \<and> keep r) rs\<rparr>, log @ msgs))"
        using True c by (simp add: f ih conj_commute split: option.split)
      then show ?thesis by blast
    qed
  qed
qed

lemma exclude_rows_frame:
  "exclude_rows re col pat \<lparr>columns = cs, rows = rs\<rparr> =
     (if col \<notin> set cs then Inl (KeyError col)
      else if \<not> re_compiles re pat then Inl (ReError pat)
      else Inr \<lparr>columns = cs, rows = filter (\<lambda>r. \<not> str_contains re pat (r col)) rs\<rparr>)"
  by (simp add: exclude_rows_def)

text \<open>On a frame that keeps all its columns, \<open>filter_dataframe\<close> fails or not by the
  columns and the configuration alone, and otherwise works row by row.\<close>

lemma filter_dataframe_rowwise:
  "\<exists>err msgs g. g [] = [] \<and> (\<forall>xs ys. g (xs @ ys) = g xs @ g ys) \<and>
     (\<forall>rs. dropna_columns \<lparr>columns = cs, rows = rs\<rparr> = \<lparr>columns = cs, rows = rs\<rparr> \<longrightarrow>
        filter_dataframe re cfg \<lparr>columns = cs, rows = rs\<rparr> =
          (case err of Some e \<Rightarrow> Inl e
           | None \<Rightarrow> Inr (\<lparr>columns = cs, rows = g rs\<rparr>, msgs)))"
proof -
  obtain err3 msgs keep where loop:
    "\<And>rs log. additional_filter_loop re (additional_filters cfg) \<lparr>columns = cs, rows = rs\<rparr> log =
       (case err3 of Some e \<Rightarrow> Inl e
        | None \<Rightarrow> Inr (\<lparr>columns = cs, rows = filter keep rs\<rparr>, log @ msgs))"
    using additional_filter_loop_rowwise [of re "additional_filters cfg" cs] by blast
  define step where "step col pat =
     (if pat = [] then None
      else if col \<notin> set cs then Some (KeyError col)
      else if \<not> re_compiles re pat then Some (ReError pat) else None)" for col pat
  define pass where "pass col pat = (\<lambda>r :: row. pat = [] \<or> \<not> str_contains re pat (r col))" for col pat
  define err where "err =
     (case step (main_column cfg) (main_column_exclude cfg) of Some e \<Rightarrow> Some e
      | None \<Rightarrow> (case step (secondary_column cfg) (secondary_column_exclude cfg) of
                   Some e \<Rightarrow> Some e | None \<Rightarrow> err3))"
  define g where "g = (\<lambda>rs. filter keep (map fillna_row
     (filter (pass (secondary_column cfg) (secondary_column_exclude cfg))
        (filter (pass (main_column cfg) (main_column_exclude cfg)) rs))))"
  have g0: "g [] = []" and gapp: "\<forall>xs ys. g (xs @ ys) = g xs @ g ys"
    by (simp_all add: g_def)
  have "filter_dataframe re cfg \<lparr>columns = cs, rows = rs\<rparr> =
          (case err of Some e \<Rightarrow> Inl e
           | None \<Rightarrow> Inr (\<lparr>columns = cs, rows = g rs\<rparr>, msgs))"
    if d: "dropna_columns \<lparr>columns = cs, rows = rs\<rparr> = \<lparr>columns = cs, rows = rs\<rparr>" for rs
    unfolding filter_dataframe_def d
    by (simp add: exclude_rows_frame fillna_str_def loop err_def step_def g_def pass_def
          split: option.split)
  with g0 gapp show ?thesis by blast
qed

lemma pivot_table_rowwise:
  "\<exists>err w h. h [] = [] \<and> (\<forall>xs ys. h (xs @ ys) = h xs @ h ys) \<and>
     (\<forall>rs. pivot_table cfg \<lparr>columns = cs, rows = rs\<rparr> =
        (case err of Some e \<Rightarrow> Inl e | None \<Rightarrow> Inr (count_groups w (h rs))))"
proof -
  define err where "err =
     (if secondary_column cfg \<notin> set cs then Some (KeyError (secondary_column cfg))
      else if count_column cfg = main_column cfg then None
      else if main_column cfg \<notin> set cs then Some (KeyError (main_column cfg))
      else None)"
  define w :: nat where "w = (if count_column cfg = main_column cfg then 2 else 1)"
  define h where "h = (\<lambda>rs. List.map_filter
                  (if count_column cfg = main_column cfg then overwritten_key cfg else row_key cfg)
                  (filter (\<lambda>r. strip_nonempty (r (secondary_column cfg))) rs))"
  have "h [] = []" "\<forall>xs ys. h (xs @ ys) = h xs @ h ys"
    by (simp_all add: h_def List.map_filter_def)
  moreover have "\<forall>rs. pivot_table cfg \<lparr>columns = cs, rows = rs\<rparr> =
        (case err of Some e \<Rightarrow> Inl e | None \<Rightarrow> Inr (count_groups w (h rs)))"
    by (simp add: pivot_table_def err_def h_def w_def)
  ultimately show ?thesis by blast
qed

section \<open>Chunked and whole-frame aggregation\<close>

lemma dropna_columns_id:
  assumes "rs \<noteq> []" "no_nan cs rs"
  shows "dropna_columns \<lparr>columns = cs, rows = rs\<rparr> = \<lparr>columns = cs, rows = rs\<rparr>"
proof -
  from assms(1) obtain r rs' where rs: "rs = r # rs'" by (cases rs) auto
  with assms(2) have "\<forall>c\<in>set cs. r c \<noteq> None"
    by (simp add: no_nan_def list_all_iff)
  then have "filter (\<lambda>c. list_ex (\<lambda>r. r c \<noteq> None) rs) cs = cs"
    by (simp add: rs filter_id_conv)
  then show ?thesis by (simp add: dropna_columns_def)
qed

lemma filter_then_pivot_rowwise:
  "\<exists>err w k. k [] = [] \<and> (\<forall>xs ys. k (xs @ ys) = k xs @ k ys) \<and>
     (\<forall>rs. rs \<noteq> [] \<and> no_nan cs rs \<longrightarrow>
        filter_then_pivot re cfg \<lparr>columns = cs, rows = rs\<rparr> =
          (case err of Some e \<Rightarrow> Inl e | None \<Rightarrow> Inr (count_groups w (k rs))))"
proof -
  obtain err1 msgs g where g: "g [] = []" "\<And>xs ys. g (xs @ ys) = g xs @ g ys"
    and f: "\<And>rs. dropna_columns \<lparr>columns = cs, rows = rs\<rparr> = \<lparr>columns = cs, rows = rs\<rparr> \<Longrightarrow>
        filter_dataframe re cfg \<lparr>columns = cs, rows = rs\<rparr> =
          (case err1 of Some e \<Rightarrow> Inl e
           | None \<Rightarrow> Inr (\<lparr>columns = cs, rows = g rs\<rparr>, msgs))"
    using filter_dataframe_rowwise [of cs re cfg] by blast
  obtain err2 w h where h: "h [] = []" "\<And>xs ys. h (xs @ ys) = h xs @ h ys"
    and p: "\<And>rs. pivot_table cfg \<lparr>columns = cs, rows = rs\<rparr> =
        (case err2 of Some e \<Rightarrow> Inl e | None \<Rightarrow> Inr (count_groups w (h rs)))"
    using pivot_table_rowwise [of cfg cs] by blast
  define err where "err = (case err1 of Some e \<Rightarrow> Some e | None \<Rightarrow> err2)"
  have "filter_then_pivot re cfg \<lparr>columns = cs, rows = rs\<rparr> =
          (case err of Some e \<Rightarrow> Inl e | None \<Rightarrow> Inr (count_groups w ((h \<circ> g) rs)))"
    if "rs \<noteq> [] \<and> no_nan cs rs" for rs
    using that
    by (simp add: filter_then_pivot_def f [OF dropna_columns_id] p err_def split: option.split)
  moreover have "(h \<circ> g) [] = []" "\<forall>xs ys. (h \<circ> g) (xs @ ys) = (h \<circ> g) xs @ (h \<circ> g) ys"
    by (simp_all add: g h)
  ultimately show ?thesis by blast
qed

lemma pivot_chunks_step:
  "pivot_chunks re cfg (chunk # reader) acc =
     (case filter_then_pivot re cfg chunk of
        Inl e \<Rightarrow> Inl e
      | Inr pivot_chunk \<Rightarrow>
          (if pivot_chunk = [] then pivot_chunks re cfg reader acc
           else pivot_chunks re cfg reader
                  (Some (case acc of None \<Rightarrow> pivot_chunk | Some t \<Rightarrow> merge t pivot_chunk))))"
  by (simp add: filter_then_pivot_def split: sum.split prod.split option.split)

lemma pivot_chunks_accumulates:
  assumes k: "k [] = []" "\<And>xs ys. k (xs @ ys) = k xs @ k ys"
    and ok: "\<forall>rs\<in>set css. filter_then_pivot re cfg \<lparr>columns = cs, rows = rs\<rparr> = Inr (count_groups w (k rs))"
  shows "pivot_chunks re cfg (map (\<lambda>rs. \<lparr>columns = cs, rows = rs\<rparr>) css)
           (if ks = [] then None else Some (count_groups w ks))
       = Inr (if ks @ k (concat css) = [] then None
              else Some (count_groups w (ks @ k (concat css))))"
  using ok
proof (induction css arbitrary: ks)
  case Nil
  then show ?case by (simp add: k)
next
  case (Cons c css)
  have c: "filter_then_pivot re cfg \<lparr>columns = cs, rows = c\<rparr> = Inr (count_groups w (k c))"
    using Cons.prems by simp
  have rest: "\<forall>rs\<in>set css. filter_then_pivot re cfg \<lparr>columns = cs, rows = rs\<rparr> = Inr (count_groups w (k rs))"
    using Cons.prems by simp
  show ?case
  proof (cases "k c = []")
    case True
    then show ?thesis
      using Cons.IH [OF rest, of ks]
      by (simp add: pivot_chunks_step c count_groups_Nil_iff k del: pivot_chunks.simps)
  next
    case False
    have "(case (if ks = [] then None else Some (count_groups w ks)) of
             None \<Rightarrow> count_groups w (k c) | Some t \<Rightarrow> merge t (count_groups w (k c)))
          = count_groups w (ks @ k c)"
      by (simp add: merge_count_groups)
    then show ?thesis
      using Cons.IH [OF rest, of "ks @ k c"] False
      by (simp add: pivot_chunks_step c count_groups_Nil_iff k del: pivot_chunks.simps)
  qed
qed

lemma no_nan_concat: "\<forall>rs\<in>set css. no_nan cs rs \<Longrightarrow> no_nan cs (concat css)"
  by (auto simp: no_nan_def list_all_iff)

text \<open>The chunked result on any partition into chunks with rows and without NaN: the
  error of the whole frame, or its table, with \<open>None\<close> in place of the empty table.\<close>

lemma pivot_chunks_whole:
  assumes "css \<noteq> []" "\<forall>rs\<in>set css. rs \<noteq> []" "\<forall>rs\<in>set css. no_nan cs rs"
  shows "pivot_chunks re cfg (map (\<lambda>rs. \<lparr>columns = cs, rows = rs\<rparr>) css) None =
           (case filter_then_pivot re cfg \<lparr>columns = cs, rows = concat css\<rparr> of
              Inl e \<Rightarrow> Inl e
            | Inr t \<Rightarrow> Inr (if t = [] then None else Some t))"
proof -
  obtain err w k where k: "k [] = []" "\<And>xs ys. k (xs @ ys) = k xs @ k ys"
    and f: "\<And>rs. rs \<noteq> [] \<and> no_nan cs rs \<Longrightarrow>
        filter_then_pivot re cfg \<lparr>columns = cs, rows = rs\<rparr> =
          (case err of Some e \<Rightarrow> Inl e | None \<Rightarrow> Inr (count_groups w (k rs)))"
    using filter_then_pivot_rowwise [of cs re cfg] by blast
  from assms(1) obtain c css' where css: "css = c # css'" by (cases css) auto
  have "concat css \<noteq> []"
    using assms(2) by (simp add: css)
  with no_nan_concat [OF assms(3)]
  have whole: "concat css \<noteq> [] \<and> no_nan cs (concat css)" by simp
  show ?thesis
  proof (cases err)
    case (Some e)
    have "c \<noteq> [] \<and> no_nan cs c" using assms by (simp add: css)
    then have "filter_then_pivot re cfg \<lparr>columns = cs, rows = c\<rparr> = Inl e"
      using f [of c] Some by simp
    moreover have "filter_then_pivot re cfg \<lparr>columns = cs, rows = concat css\<rparr> = Inl e"
      using f [OF whole] Some by simp
    ultimately show ?thesis
      by (simp add: css pivot_chunks_step del: pivot_chunks.simps)
  next
    case None
    have "\<forall>rs\<in>set css. filter_then_pivot re cfg \<lparr>columns = cs, rows = rs\<rparr> = Inr (count_groups w (k rs))"
      using f assms None by simp
    from pivot_chunks_accumulates [OF k this, of "[]"]
    have "pivot_chunks re cfg (map (\<lambda>rs. \<lparr>columns = cs, rows = rs\<rparr>) css) None
        = Inr (if k (concat css) = [] then None else Some (count_groups w (k (concat css))))"
      by simp
    moreover have "filter_then_pivot re cfg \<lparr>columns = cs, rows = concat css\<rparr>
        = Inr (count_groups w (k (concat css)))"
      using f [OF whole] None by simp
    ultimately show ?thesis by (simp add: count_groups_Nil_iff)
  qed
qed

section \<open>Chunks of a file\<close>

lemma concat_chunks_of: "0 < n \<Longrightarrow> concat (chunks_of n xs) = xs"
proof (induction n xs rule: chunks_of.induct)
  case (1 n xs)
  then show ?case by (subst chunks_of.simps) simp
qed

lemma chunks_of_nonempty: "c \<in> set (chunks_of n xs) \<Longrightarrow> c \<noteq> []"
proof (induction n xs rule: chunks_of.induct)
  case (1 n xs)
  from "1.prems" have "\<not> (n = 0 \<or> xs = [])" and "c = take n xs \<or> c \<in> set (chunks_of n (drop n xs))"
    by (subst (asm) chunks_of.simps, simp split: if_splits)+
  then show ?case using "1.IH" by auto
qed

lemma chunks_of_length: "c \<in> set (chunks_of n xs) \<Longrightarrow> length c \<le> n"
proof (induction n xs rule: chunks_of.induct)
  case (1 n xs)
  from "1.prems" have "\<not> (n = 0 \<or> xs = [])" and "c = take n xs \<or> c \<in> set (chunks_of n (drop n xs))"
    by (subst (asm) chunks_of.simps, simp split: if_splits)+
  then show ?case using "1.IH" by auto
qed

lemma chunks_of_full: "c \<in> set (butlast (chunks_of n xs)) \<Longrightarrow> length c = n"
proof (induction n xs rule: chunks_of.induct)
  case (1 n xs)
  show ?case
  proof (cases "n = 0 \<or> xs = []")
    case True
    with "1.prems" show ?thesis by (subst (asm) chunks_of.simps) simp
  next
    case False
    show ?thesis
    proof (cases "drop n xs = []")
      case True
      then have "chunks_of n (drop n xs) = []" by (subst chunks_of.simps) simp
      with "1.prems" False show ?thesis by (subst (asm) chunks_of.simps) simp
    next
      case d: False
      then have ne: "chunks_of n (drop n xs) \<noteq> []" by (subst chunks_of.simps) (use False in simp)
      from d have "n < length xs" by simp
      with "1.prems" False ne "1.IH" show ?thesis
        by (subst (asm) chunks_of.simps) (auto split: if_splits)
    qed
  qed
qed

lemma chunks_of_Nil_iff: "0 < n \<Longrightarrow> chunks_of n xs = [] \<longleftrightarrow> xs = []"
  by (subst chunks_of.simps) simp

lemma parse_record_plain:
  assumes "length record = length hdr" "list_all (\<lambda>v. v \<notin> set na_values) record"
  shows "parse_record True hdr record = parse_record False hdr record"
proof
  fix c
  show "parse_record True hdr record c = parse_record False hdr record c"
  proof (cases "map_of (zip hdr record) c")
    case None
    then show ?thesis by (simp add: parse_record_def)
  next
    case (Some v)
    then have "v \<in> set record" by (auto dest!: map_of_SomeD set_zip_rightD)
    with assms(2) have "v \<notin> set na_values" by (simp add: list_all_iff)
    with Some show ?thesis by (simp add: parse_record_def)
  qed
qed

lemma read_frame_plain:
  "plain_records hdr recs \<Longrightarrow> read_frame True hdr recs = read_frame False hdr recs"
  by (simp add: read_frame_def plain_records_def list_all_iff parse_record_plain)

lemma no_nan_read_frame:
  assumes "list_all (\<lambda>r. length r = length hdr) recs"
  shows "no_nan hdr (map (parse_record False hdr) recs)"
proof -
  have "parse_record False hdr rcd c \<noteq> None"
    if "rcd \<in> set recs" "c \<in> set hdr" for rcd c
  proof -
    from that(1) assms have "length hdr = length rcd"
      by (simp add: list_all_iff)
    then have "map_of (zip hdr rcd) c \<noteq> None"
      using that(2) by (simp add: map_of_zip_is_None)
    then show ?thesis by (auto simp: parse_record_def)
  qed
  then show ?thesis by (simp add: no_nan_def list_all_iff)
qed

lemma chunk_subset: "0 < n \<Longrightarrow> c \<in> set (chunks_of n xs) \<Longrightarrow> set c \<subseteq> set xs"
proof -
  assume n: "0 < n" and c: "c \<in> set (chunks_of n xs)"
  from c have "set c \<subseteq> set (concat (chunks_of n xs))" by auto
  then show ?thesis by (simp add: concat_chunks_of [OF n])
qed

text \<open>On a file with records, each with a field per header name, the chunked mode gives
  the error or the table of the frame read at once without the NaN filter, with \<open>None\<close>
  in place of the empty table.\<close>

lemma pivot_chunked_file_unfiltered:
  assumes "records f \<noteq> []" "list_all (\<lambda>r. length r = length (header f)) (records f)"
  shows "pivot_chunked_file re cfg f =
           (case filter_then_pivot re cfg (read_frame False (header f) (records f)) of
              Inl e \<Rightarrow> Inl e
            | Inr t \<Rightarrow> Inr (if t = [] then None else Some t))"
proof -
  let ?css = "map (map (parse_record False (header f))) (chunks_of 100000 (records f))"
  have frames: "read_csv_chunks 100000 f = map (\<lambda>rs. \<lparr>columns = header f, rows = rs\<rparr>) ?css"
    using assms(1) by (simp add: read_csv_chunks_def read_frame_def comp_def)
  have 1: "?css \<noteq> []"
    using assms(1) by (simp add: chunks_of_Nil_iff)
  have 2: "\<forall>rs\<in>set ?css. rs \<noteq> []"
    by (auto dest: chunks_of_nonempty)
  have "list_all (\<lambda>r. length r = length (header f)) c" if "c \<in> set (chunks_of 100000 (records f))" for c
    using chunk_subset [OF _ that] assms(2) by (auto simp: list_all_iff)
  then have 3: "\<forall>rs\<in>set ?css. no_nan (header f) rs"
    by (auto intro!: no_nan_read_frame)
  have "concat ?css = map (parse_record False (header f)) (concat (chunks_of 100000 (records f)))"
    by (simp add: map_concat)
  then have whole: "\<lparr>columns = header f, rows = concat ?css\<rparr>
      = read_frame False (header f) (records f)"
    by (simp add: concat_chunks_of read_frame_def)
  show ?thesis
    unfolding pivot_chunked_file_def frames
    using pivot_chunks_whole [OF 1 2 3, of re cfg] by (simp only: whole)
qed

lemma pivot_chunked_file_whole:
  assumes "records f \<noteq> []" "plain_records (header f) (records f)"
  shows "pivot_chunked_file re cfg f =
           (case pivot_whole_file re cfg f of
              Inl e \<Rightarrow> Inl e
            | Inr t \<Rightarrow> Inr (if t = [] then None else Some t))"
proof -
  from assms(2) have "list_all (\<lambda>r. length r = length (header f)) (records f)"
    by (simp add: plain_records_def list_all_iff)
  from pivot_chunked_file_unfiltered [OF assms(1) this]
  show ?thesis
    by (simp only: pivot_whole_file_def read_frame_plain [OF assms(2)])
qed

section \<open>Chunk invariance\<close>

lemma chunks_of_single: "0 < n \<Longrightarrow> xs \<noteq> [] \<Longrightarrow> length xs \<le> n \<Longrightarrow> chunks_of n xs = [xs]"
  by (subst chunks_of.simps, subst chunks_of.simps) simp

lemmas pipeline_defs =
  filter_then_pivot_def filter_dataframe_def dropna_columns_def exclude_rows_def
  str_contains_def str_fullmatch_def fillna_str_def fillna_row_def pivot_table_def
  count_column_def count_groups_def row_key_def overwritten_key_def strip_nonempty_def
  str_strip_def is_space1_def is_space2_def is_space3_def
  List.map_filter_def

lemmas reader_defs =
  pivot_whole_file_def pivot_chunked_file_def read_csv_chunks_def read_frame_def
  parse_record_def na_values_def

lemmas example_defs =
  plain_config_def key_columns_def ny_blue_def ny_blank_def la_red_def csv_example_def csv_bytes_def

lemmas literal_re_defs = literal_re_def is_operator_def is_alnum_def

text \<open>
  Where the chunk loop does agree with the aggregation at once. For a frame without NaN
  and any partition of its rows into chunks that all have rows, the chunk loop ends in
  the error that filtering and aggregating the whole frame ends in, and when the table
  of the whole frame has an entry the loop returns exactly that table. For a file with
  records that have a field per header name and no NaN marker, the chunked mode agrees
  in the same way with the whole-file mode.
\<close>

theorem chunk_invariance:
  "(css \<noteq> [] \<and> (\<forall>rs\<in>set css. rs \<noteq> [] \<and> no_nan cs rs) \<longrightarrow>
      (\<forall>e. filter_then_pivot re cfg \<lparr>columns = cs, rows = concat css\<rparr> = Inl e \<longrightarrow>
           pivot_chunks re cfg (map (\<lambda>rs. \<lparr>columns = cs, rows = rs\<rparr>) css) None = Inl e) \<and>
      (\<forall>t. filter_then_pivot re cfg \<lparr>columns = cs, rows = concat css\<rparr> = Inr t \<and> t \<noteq> [] \<longrightarrow>
           pivot_chunks re cfg (map (\<lambda>rs. \<lparr>columns = cs, rows = rs\<rparr>) css) None = Inr (Some t))) \<and>
   (records f \<noteq> [] \<and> plain_records (header f) (records f) \<longrightarrow>
      (\<forall>e. pivot_whole_file re cfg f = Inl e \<longrightarrow> pivot_chunked_file re cfg f = Inl e) \<and>
      (\<forall>t. pivot_whole_file re cfg f = Inr t \<and> t \<noteq> [] \<longrightarrow>
           pivot_chunked_file re cfg f = Inr (Some t)))"
proof (intro conjI impI)
  assume a: "css \<noteq> [] \<and> (\<forall>rs\<in>set css. rs \<noteq> [] \<and> no_nan cs rs)"
  then have 1: "css \<noteq> []" and 2: "\<forall>rs\<in>set css. rs \<noteq> []" and 3: "\<forall>rs\<in>set css. no_nan cs rs"
    by simp_all
  note w = pivot_chunks_whole [OF 1 2 3, of re cfg]
  show "\<forall>e. filter_then_pivot re cfg \<lparr>columns = cs, rows = concat css\<rparr> = Inl e \<longrightarrow>
           pivot_chunks re cfg (map (\<lambda>rs. \<lparr>columns = cs, rows = rs\<rparr>) css) None = Inl e"
    by (simp add: w)
  show "\<forall>t. filter_then_pivot re cfg \<lparr>columns = cs, rows = concat css\<rparr> = Inr t \<and> t \<noteq> [] \<longrightarrow>
           pivot_chunks re cfg (map (\<lambda>rs. \<lparr>columns = cs, rows = rs\<rparr>) css) None = Inr (Some t)"
    by (simp add: w)
next
  assume b: "records f \<noteq> [] \<and> plain_records (header f) (records f)"
  then have w: "pivot_chunked_file re cfg f =
           (case pivot_whole_file re cfg f of
              Inl e \<Rightarrow> Inl e
            | Inr t \<Rightarrow> Inr (if t = [] then None else Some t))"
    by (simp add: pivot_chunked_file_whole)
  show "\<forall>e. pivot_whole_file re cfg f = Inl e \<longrightarrow> pivot_chunked_file re cfg f = Inl e"
    by (simp add: w)
  show "\<forall>t. pivot_whole_file re cfg f = Inr t \<and> t \<noteq> [] \<longrightarrow>
           pivot_chunked_file re cfg f = Inr (Some t)"
    by (simp add: w)
qed

theorem chunk_invariance_witness:
  "[[ny_blue, ny_blank], [ny_blue, la_red]] \<noteq> [] \<and>
   [ny_blue, ny_blank] \<noteq> [] \<and> no_nan key_columns [ny_blue, ny_blank] \<and>
   [ny_blue, la_red] \<noteq> [] \<and> no_nan key_columns [ny_blue, la_red] \<and>
   filter_then_pivot literal_re plain_config
     \<lparr>columns = key_columns, rows = concat [[ny_blue, ny_blank], [ny_blue, la_red]]\<rparr>
     = Inr [((''LA'', ''Red''), 1), ((''NY'', ''Blue''), 2)] \<and>
   pivot_chunks literal_re plain_config
     (map (\<lambda>rs. \<lparr>columns = key_columns, rows = rs\<rparr>) [[ny_blue, ny_blank], [ny_blue, la_red]]) None
     = Inr (Some [((''LA'', ''Red''), 1), ((''NY'', ''Blue''), 2)]) \<and>
   records (csv_example [[''NY'', ''Blue''], [''LA'', ''Red''], [''NY'', ''Blue'']]) \<noteq> [] \<and>
   plain_records (header (csv_example [[''NY'', ''Blue''], [''LA'', ''Red''], [''NY'', ''Blue'']]))
     (records (csv_example [[''NY'', ''Blue''], [''LA'', ''Red''], [''NY'', ''Blue'']])) \<and>
   pivot_chunked_file literal_re plain_config
     (csv_example [[''NY'', ''Blue''], [''LA'', ''Red''], [''NY'', ''Blue'']])
     = Inr (Some [((''LA'', ''Red''), 1), ((''NY'', ''Blue''), 2)])"
proof -
  let ?css = "[[ny_blue, ny_blank], [ny_blue, la_red]]"
  let ?f = "csv_example [[''NY'', ''Blue''], [''LA'', ''Red''], [''NY'', ''Blue'']]"
  let ?t = "[((''LA'', ''Red''), 1::nat), ((''NY'', ''Blue''), 2)]"
  have h1: "?css \<noteq> [] \<and> (\<forall>rs\<in>set ?css. rs \<noteq> [] \<and> no_nan key_columns rs)"
    by (simp add: no_nan_def example_defs)
  have w1: "filter_then_pivot literal_re plain_config \<lparr>columns = key_columns, rows = concat ?css\<rparr>
      = Inr ?t"
    by (simp add: pipeline_defs example_defs)
  have h2: "records ?f \<noteq> [] \<and> plain_records (header ?f) (records ?f)"
    by (simp add: plain_records_def example_defs na_values_def)
  have w2: "pivot_whole_file literal_re plain_config ?f = Inr ?t"
    by (simp add: pipeline_defs reader_defs example_defs)
  from chunk_invariance [of ?css key_columns literal_re plain_config ?f] h1 w1 h2 w2
  have "pivot_chunks literal_re plain_config
          (map (\<lambda>rs. \<lparr>columns = key_columns, rows = rs\<rparr>) ?css) None = Inr (Some ?t)"
    and "pivot_chunked_file literal_re plain_config ?f = Inr (Some ?t)"
    by blast+
  moreover from h1 have "[ny_blue, ny_blank] \<noteq> [] \<and> no_nan key_columns [ny_blue, ny_blank] \<and>
      [ny_blue, la_red] \<noteq> [] \<and> no_nan key_columns [ny_blue, la_red]"
    by simp
  ultimately show ?thesis using w1 h2 by blast
qed

text \<open>
  C1 fails on the code. On the file with the records \<open>NY,Blue\<close> and \<open>NY,NA\<close> the two
  modes give different tables: the whole-file branch of \<^verbatim>\<open>pivot_file\<close> reads with the
  NaN filter of \<^verbatim>\<open>pd.read_csv\<close>, which turns the field \<open>NA\<close> into NaN, and the row is
  not counted; \<^verbatim>\<open>pivot_chunked_file\<close> reads with \<^verbatim>\<open>na_filter=False\<close>, keeps the string,
  and the row is counted.
\<close>

theorem modes_disagree_on_na_marker:
  "pivot_whole_file literal_re plain_config (csv_example [[''NY'', ''Blue''], [''NY'', ''NA'']])
     = Inr [((''NY'', ''Blue''), 1)] \<and>
   pivot_chunked_file literal_re plain_config (csv_example [[''NY'', ''Blue''], [''NY'', ''NA'']])
     = Inr (Some [((''NY'', ''Blue''), 1), ((''NY'', ''NA''), 1)])"
  by (simp add: pipeline_defs reader_defs example_defs chunks_of_single)

section \<open>Results without rows, and the loop over the files\<close>

text \<open>A file in which every record is \<open>NY\<close> with an empty secondary field.\<close>

lemma blank_rows_pivot:
  assumes "recs \<noteq> []" "\<forall>r\<in>set recs. r = [''NY'', []]"
  shows "filter_then_pivot re plain_config (read_frame False key_columns recs) = Inr []"
proof -
  define row where "row = parse_record False key_columns [''NY'', []]"
  define n where "n = length recs"
  from assms(2) have "map (parse_record False key_columns) recs = replicate n row"
    unfolding row_def n_def by (simp add: map_replicate_const [symmetric] cong: map_cong)
  then have frame: "read_frame False key_columns recs
      = \<lparr>columns = [''Destination'', ''Anchor''], rows = replicate n row\<rparr>"
    by (simp add: read_frame_def key_columns_def)
  have cell: "row ''Destination'' = Some ''NY''" "row ''Anchor'' = Some []"
    by (simp_all add: row_def parse_record_def key_columns_def)
  from assms(1) have n: "0 < n" by (simp add: n_def)
  then have ex: "list_ex P (replicate n row) \<longleftrightarrow> P row" for P
    by (simp add: list_ex_iff)
  have blank: "\<not> strip_nonempty (fillna_row row ''Anchor'')"
    by (simp add: fillna_row_def cell strip_nonempty_def str_strip_def)
  show ?thesis
    unfolding frame
    by (simp add: filter_then_pivot_def filter_dataframe_def dropna_columns_def
          ex cell plain_config_def fillna_str_def pivot_table_def
          count_column_def blank count_groups_def List.map_filter_def)
qed

lemma blank_file_chunked:
  assumes "records f \<noteq> []" "\<forall>r\<in>set (records f). r = [''NY'', []]" "header f = key_columns"
  shows "pivot_chunked_file re plain_config f = Inr None"
proof -
  have "list_all (\<lambda>r. length r = length (header f)) (records f)"
    using assms(2,3) by (auto simp: list_all_iff key_columns_def)
  from pivot_chunked_file_unfiltered [OF assms(1) this, of re plain_config]
  show ?thesis
    by (simp add: assms(3) blank_rows_pivot [OF assms(1,2)])
qed

text \<open>
  C5 fails on the code. A file of thirty million records \<open>NY,\<close> (120000019 bytes) goes
  to the chunked mode; no row has a secondary value, and \<^verbatim>\<open>pivot_chunked_file\<close>
  returns \<^verbatim>\<open>None\<close>, on which writing the output raises. The whole-file mode, on a
  small file of such records, drops the empty secondary column and raises \<open>KeyError\<close>.
\<close>

theorem empty_result_is_none:
  "size_bytes big_csv = 120000019 \<and>
   pivot_file literal_re plain_config big_csv = Inr None \<and>
   process_file literal_re plain_config big_csv = Inl AttributeError \<and>
   pivot_file literal_re plain_config (csv_example [[''NY'', []]]) = Inl (KeyError ''Anchor'')"
proof -
  let ?f = "big_csv"
  have 0: "size_bytes big_csv = 120000019"
    by (simp add: big_csv_def csv_bytes_def key_columns_def sum_list_replicate)
  have "pivot_chunked_file literal_re plain_config ?f = Inr None"
    by (rule blank_file_chunked) (simp_all add: big_csv_def)
  then have 1: "pivot_file literal_re plain_config ?f = Inr None"
    by (simp add: pivot_file_def route_def MAX_FILE_SIZE_def 0)
  then have 2: "process_file literal_re plain_config ?f = Inl AttributeError"
    by (simp add: process_file_def write_dataframe_to_output_def plain_config_def)
  have 3: "pivot_file literal_re plain_config (csv_example [[''NY'', []]]) = Inl (KeyError ''Anchor'')"
    by (simp add: pivot_file_def route_def MAX_FILE_SIZE_def pipeline_defs reader_defs example_defs)
  from 0 1 2 3 show ?thesis by blast
qed

text \<open>
  C4 fails on the code. The first file has no \<open>Anchor\<close> column: \<open>KeyError\<close> is not a
  \<open>ZeroDivisionError\<close>, the handler of the loop lets it pass, and the run ends before
  the second file, which alone is processed and written.
\<close>

theorem missing_column_aborts_run:
  "main_loop literal_re plain_config
     [\<lparr>path = ''input/UK/0.csv'', size_bytes = 25, header = [''Destination'', ''Text''],
       records = [[''NY'', ''Blue'']]\<rparr>,
      csv_example [[''NY'', ''Blue''], [''LA'', ''Red'']]] = Inl (KeyError ''Anchor'') \<and>
   main_loop literal_re plain_config [csv_example [[''NY'', ''Blue''], [''LA'', ''Red'']]]
     = Inr [(''input/UK/a.csv'', [((''LA'', ''Red''), 1), ((''NY'', ''Blue''), 1)])]"
  by (simp add: process_file_def write_dataframe_to_output_def pivot_file_def route_def
        MAX_FILE_SIZE_def pipeline_defs reader_defs example_defs)

text \<open>Whatever the files, an exception other than \<open>ZeroDivisionError\<close> ends the run.\<close>

lemma main_loop_aborts:
  "process_file re cfg f = Inl e \<Longrightarrow> e \<noteq> ZeroDivisionError \<Longrightarrow> main_loop re cfg (f # fs) = Inl e"
  by simp

section \<open>Matching, and the choice of the mode\<close>

lemmas follow_defs =
  follow_columns_def rings_row_def please_row_def shop_row_def anchor_please_row_def

lemma follow_cells:
  "rings_row ''Destination'' = Some ''Jewelry/14-carat/Rings''" "rings_row ''Anchor'' = Some ''Rings''"
  "rings_row ''Follow'' = Some ''Yes''"
  "please_row ''Destination'' = Some ''Shop''" "please_row ''Anchor'' = Some ''Home''"
  "please_row ''Follow'' = Some ''Yes please''"
  "shop_row ''Destination'' = Some ''Shop''" "shop_row ''Anchor'' = Some ''Home''"
  "shop_row ''Follow'' = Some ''Yes''"
  "anchor_please_row ''Destination'' = Some ''Shop''"
  "anchor_please_row ''Anchor'' = Some ''Yes please''" "anchor_please_row ''Follow'' = Some ''Yes''"
  by (simp_all add: follow_defs)

lemma additional_filter_loop_kept:
  "additional_filter_loop re fs df log = Inr (d, log') \<Longrightarrow>
     rows d = filter (\<lambda>r. list_all (\<lambda>(c, p). c \<notin> set (columns df) \<or> str_fullmatch re p (r c)) fs)
                (rows df)"
proof (induction fs arbitrary: df log)
  case Nil
  then show ?case by simp
next
  case (Cons f fs)
  obtain c p where f: "f = (c, p)" by (cases f)
  show ?case
  proof (cases "c \<in> set (columns df)")
    case False
    with Cons.prems have "additional_filter_loop re fs df (log @ [skip_message c]) = Inr (d, log')"
      by (simp add: f)
    from Cons.IH [OF this] False show ?thesis by (simp add: f)
  next
    case True
    let ?df = "df\<lparr>rows := filter (\<lambda>r. str_fullmatch re p (r c)) (rows df)\<rparr>"
    from Cons.prems True have "additional_filter_loop re fs ?df log = Inr (d, log')"
      by (simp add: f split: if_splits)
    from Cons.IH [OF this] True show ?thesis
      by (simp add: f conj_commute)
  qed
qed

lemma exclude_rows_kept:
  "(if pat \<noteq> [] then exclude_rows re col pat d else Inr d) = Inr d' \<Longrightarrow>
     columns d' = columns d \<and>
     rows d' = filter (\<lambda>r. pat = [] \<or> (case r col of None \<Rightarrow> True | Some v \<Rightarrow> \<not> re_search re pat v))
                 (rows d)"
  by (auto simp: exclude_rows_def str_contains_def split: if_splits option.splits
           intro!: filter_cong)

text \<open>
  C7. The rows that \<^verbatim>\<open>filter_dataframe\<close> returns are, with NaN filled, the rows of the
  frame in which no substring of the main value matches the main exclude pattern, no
  substring of the secondary value matches the secondary exclude pattern, and the
  whole value of each additional filter's column (when the batch has it) matches that
  filter's pattern. So, for every engine that answers as Python's \<^verbatim>\<open>re\<close> does on these
  patterns: the additional filter \<open>Yes\<close> rejects the value \<open>Yes please\<close>, of which it
  is not a full match; the main exclude pattern \<open>14-carat/\<close> rejects the value
  \<open>Jewelry/14-carat/Rings\<close>, which contains a match; and the secondary exclude
  pattern \<open>Yes\<close> rejects the value \<open>Yes please\<close>, which contains a match.
\<close>

theorem filter_matching_semantics:
  "(filter_dataframe re cfg df = Inr (fd, log) \<longrightarrow>
      rows fd = map fillna_row (filter (\<lambda>r.
          (main_column_exclude cfg = [] \<or>
             (case r (main_column cfg) of None \<Rightarrow> True
              | Some v \<Rightarrow> \<not> re_search re (main_column_exclude cfg) v)) \<and>
          (secondary_column_exclude cfg = [] \<or>
             (case r (secondary_column cfg) of None \<Rightarrow> True
              | Some v \<Rightarrow> \<not> re_search re (secondary_column_exclude cfg) v)) \<and>
          list_all (\<lambda>(c, p). c \<notin> set (columns (dropna_columns df)) \<or>
                      re_fullmatch re p (case r c of None \<Rightarrow> [] | Some v \<Rightarrow> v))
            (additional_filters cfg)) (rows df))) \<and>
   (re_compiles re ''Yes'' \<and> re_fullmatch re ''Yes'' ''Yes'' \<and>
    \<not> re_fullmatch re ''Yes'' ''Yes please'' \<longrightarrow>
      without_log (filter_dataframe re (plain_config\<lparr>additional_filters := [(''Follow'', ''Yes'')]\<rparr>)
                     \<lparr>columns = follow_columns, rows = [please_row, shop_row]\<rparr>)
        = Inr \<lparr>columns = follow_columns, rows = [fillna_row shop_row]\<rparr>) \<and>
   (re_compiles re ''14-carat/'' \<and> re_search re ''14-carat/'' ''Jewelry/14-carat/Rings'' \<and>
    \<not> re_search re ''14-carat/'' ''Shop'' \<longrightarrow>
      without_log (filter_dataframe re (plain_config\<lparr>main_column_exclude := ''14-carat/''\<rparr>)
                     \<lparr>columns = follow_columns, rows = [rings_row, shop_row]\<rparr>)
        = Inr \<lparr>columns = follow_columns, rows = [fillna_row shop_row]\<rparr>) \<and>
   (re_compiles re ''Yes'' \<and> re_search re ''Yes'' ''Yes please'' \<and>
    \<not> re_search re ''Yes'' ''Home'' \<longrightarrow>
      without_log (filter_dataframe re (plain_config\<lparr>secondary_column_exclude := ''Yes''\<rparr>)
                     \<lparr>columns = follow_columns, rows = [anchor_please_row, shop_row]\<rparr>)
        = Inr \<lparr>columns = follow_columns, rows = [fillna_row shop_row]\<rparr>)"
proof (intro conjI impI)
  assume res: "filter_dataframe re cfg df = Inr (fd, log)"
  let ?P1 = "\<lambda>r. main_column_exclude cfg = [] \<or>
             (case r (main_column cfg) of None \<Rightarrow> True
              | Some v \<Rightarrow> \<not> re_search re (main_column_exclude cfg) v)"
  let ?P2 = "\<lambda>r. secondary_column_exclude cfg = [] \<or>
             (case r (secondary_column cfg) of None \<Rightarrow> True
              | Some v \<Rightarrow> \<not> re_search re (secondary_column_exclude cfg) v)"
  let ?D = "dropna_columns df"
  from res obtain df1 df2 where
    s1: "(if main_column_exclude cfg \<noteq> []
          then exclude_rows re (main_column cfg) (main_column_exclude cfg) ?D else Inr ?D) = Inr df1"
    and s2: "(if secondary_column_exclude cfg \<noteq> []
          then exclude_rows re (secondary_column cfg) (secondary_column_exclude cfg) df1
          else Inr df1) = Inr df2"
    and s3: "additional_filter_loop re (additional_filters cfg) (fillna_str df2) [] = Inr (fd, log)"
    unfolding filter_dataframe_def by (auto split: sum.splits)
  from exclude_rows_kept [OF s1] have 1: "columns df1 = columns ?D" "rows df1 = filter ?P1 (rows df)"
    by (simp_all add: dropna_columns_def)
  from exclude_rows_kept [OF s2] 1 have 2: "columns df2 = columns ?D"
    "rows df2 = filter ?P2 (filter ?P1 (rows df))"
    by simp_all
  have full: "str_fullmatch re p (fillna_row r c)
      = re_fullmatch re p (case r c of None \<Rightarrow> [] | Some v \<Rightarrow> v)" for p r c
    by (simp add: str_fullmatch_def fillna_row_def)
  from additional_filter_loop_kept [OF s3] 2
  have "rows fd = filter (\<lambda>r. list_all (\<lambda>(c, p). c \<notin> set (columns ?D) \<or> str_fullmatch re p (r c))
                            (additional_filters cfg))
                    (map fillna_row (filter ?P2 (filter ?P1 (rows df))))"
    by (simp add: fillna_str_def)
  then show "rows fd = map fillna_row (filter (\<lambda>r. ?P1 r \<and> ?P2 r \<and>
          list_all (\<lambda>(c, p). c \<notin> set (columns ?D) \<or>
                      re_fullmatch re p (case r c of None \<Rightarrow> [] | Some v \<Rightarrow> v))
            (additional_filters cfg)) (rows df))"
    by (simp add: filter_map comp_def full conj_commute conj_left_commute cong: filter_cong)
next
  assume "re_compiles re ''Yes'' \<and> re_fullmatch re ''Yes'' ''Yes'' \<and>
    \<not> re_fullmatch re ''Yes'' ''Yes please''"
  then show "without_log (filter_dataframe re (plain_config\<lparr>additional_filters := [(''Follow'', ''Yes'')]\<rparr>)
                     \<lparr>columns = follow_columns, rows = [please_row, shop_row]\<rparr>)
        = Inr \<lparr>columns = follow_columns, rows = [fillna_row shop_row]\<rparr>"
    by (simp add: without_log_def filter_dataframe_def dropna_columns_def fillna_str_def
          str_fullmatch_def fillna_row_def plain_config_def follow_columns_def follow_cells)
next
  assume "re_compiles re ''14-carat/'' \<and> re_search re ''14-carat/'' ''Jewelry/14-carat/Rings'' \<and>
    \<not> re_search re ''14-carat/'' ''Shop''"
  then show "without_log (filter_dataframe re (plain_config\<lparr>main_column_exclude := ''14-carat/''\<rparr>)
                     \<lparr>columns = follow_columns, rows = [rings_row, shop_row]\<rparr>)
        = Inr \<lparr>columns = follow_columns, rows = [fillna_row shop_row]\<rparr>"
    by (simp add: without_log_def filter_dataframe_def dropna_columns_def fillna_str_def
          exclude_rows_def str_contains_def plain_config_def follow_columns_def follow_cells)
next
  assume "re_compiles re ''Yes'' \<and> re_search re ''Yes'' ''Yes please'' \<and>
    \<not> re_search re ''Yes'' ''Home''"
  then show "without_log (filter_dataframe re (plain_config\<lparr>secondary_column_exclude := ''Yes''\<rparr>)
                     \<lparr>columns = follow_columns, rows = [anchor_please_row, shop_row]\<rparr>)
        = Inr \<lparr>columns = follow_columns, rows = [fillna_row shop_row]\<rparr>"
    by (simp add: without_log_def filter_dataframe_def dropna_columns_def fillna_str_def
          exclude_rows_def str_contains_def plain_config_def follow_columns_def follow_cells)
qed

theorem filter_matching_semantics_witness:
  "re_compiles literal_re ''Yes'' \<and> re_fullmatch literal_re ''Yes'' ''Yes'' \<and>
   \<not> re_fullmatch literal_re ''Yes'' ''Yes please'' \<and>
   without_log (filter_dataframe literal_re (plain_config\<lparr>additional_filters := [(''Follow'', ''Yes'')]\<rparr>)
                  \<lparr>columns = follow_columns, rows = [please_row, shop_row]\<rparr>)
     = Inr \<lparr>columns = follow_columns, rows = [fillna_row shop_row]\<rparr> \<and>
   re_compiles literal_re ''14-carat/'' \<and>
   re_search literal_re ''14-carat/'' ''Jewelry/14-carat/Rings'' \<and>
   \<not> re_search literal_re ''14-carat/'' ''Shop'' \<and>
   without_log (filter_dataframe literal_re (plain_config\<lparr>main_column_exclude := ''14-carat/''\<rparr>)
                  \<lparr>columns = follow_columns, rows = [rings_row, shop_row]\<rparr>)
     = Inr \<lparr>columns = follow_columns, rows = [fillna_row shop_row]\<rparr> \<and>
   re_search literal_re ''Yes'' ''Yes please'' \<and> \<not> re_search literal_re ''Yes'' ''Home'' \<and>
   without_log (filter_dataframe literal_re (plain_config\<lparr>secondary_column_exclude := ''Yes''\<rparr>)
                  \<lparr>columns = follow_columns, rows = [anchor_please_row, shop_row]\<rparr>)
     = Inr \<lparr>columns = follow_columns, rows = [fillna_row shop_row]\<rparr> \<and>
   filter_dataframe literal_re plain_config \<lparr>columns = key_columns, rows = [ny_blue]\<rparr>
     = Inr (\<lparr>columns = key_columns, rows = [fillna_row ny_blue]\<rparr>, []) \<and>
   rows \<lparr>columns = key_columns, rows = [fillna_row ny_blue]\<rparr>
     = map fillna_row (filter (\<lambda>r.
          (main_column_exclude plain_config = [] \<or>
             (case r (main_column plain_config) of None \<Rightarrow> True
              | Some v \<Rightarrow> \<not> re_search literal_re (main_column_exclude plain_config) v)) \<and>
          (secondary_column_exclude plain_config = [] \<or>
             (case r (secondary_column plain_config) of None \<Rightarrow> True
              | Some v \<Rightarrow> \<not> re_search literal_re (secondary_column_exclude plain_config) v)) \<and>
          list_all (\<lambda>(c, p). c \<notin> set (columns (dropna_columns \<lparr>columns = key_columns, rows = [ny_blue]\<rparr>)) \<or>
                      re_fullmatch literal_re p (case r c of None \<Rightarrow> [] | Some v \<Rightarrow> v))
            (additional_filters plain_config))
        (rows \<lparr>columns = key_columns, rows = [ny_blue]\<rparr>))"
proof -
  have yes: "re_compiles literal_re ''Yes'' \<and> re_fullmatch literal_re ''Yes'' ''Yes'' \<and>
      \<not> re_fullmatch literal_re ''Yes'' ''Yes please''"
    by (simp add: literal_re_defs)
  have carat: "re_compiles literal_re ''14-carat/'' \<and>
      re_search literal_re ''14-carat/'' ''Jewelry/14-carat/Rings'' \<and>
      \<not> re_search literal_re ''14-carat/'' ''Shop''"
    by (simp add: literal_re_defs)
  have anchor: "re_compiles literal_re ''Yes'' \<and> re_search literal_re ''Yes'' ''Yes please'' \<and>
      \<not> re_search literal_re ''Yes'' ''Home''"
    by (simp add: literal_re_defs)
  have plain: "filter_dataframe literal_re plain_config \<lparr>columns = key_columns, rows = [ny_blue]\<rparr>
     = Inr (\<lparr>columns = key_columns, rows = [fillna_row ny_blue]\<rparr>, [])"
    by (simp add: filter_dataframe_def dropna_columns_def fillna_str_def example_defs)
  note sem = filter_matching_semantics [of literal_re plain_config
      "\<lparr>columns = key_columns, rows = [ny_blue]\<rparr>"
      "\<lparr>columns = key_columns, rows = [fillna_row ny_blue]\<rparr>" "[]"]
  from sem yes carat anchor plain show ?thesis by blast
qed

text \<open>
  C10, as the code has it. \<^verbatim>\<open>MAX_FILE_SIZE\<close> is 104857600 bytes. A file of at most that
  size is read, filtered and aggregated at once; a larger file is processed in chunks
  of 100000 records, all but the last of exactly that length, merged one after the
  other by the chunk loop.
\<close>

theorem pivot_file_routing:
  "MAX_FILE_SIZE = 104857600 \<and>
   (size_bytes f \<le> MAX_FILE_SIZE \<longrightarrow>
      route (size_bytes f) = WHOLE_FILE \<and>
      pivot_file re cfg f =
        (case filter_then_pivot re cfg (read_frame True (header f) (records f)) of
           Inl e \<Rightarrow> Inl e | Inr t \<Rightarrow> Inr (Some t))) \<and>
   (MAX_FILE_SIZE < size_bytes f \<longrightarrow>
      route (size_bytes f) = CHUNKED \<and>
      pivot_file re cfg f =
        pivot_chunks re cfg
          (map (read_frame False (header f))
             (if records f = [] then [[]] else chunks_of 100000 (records f))) None \<and>
      concat (chunks_of 100000 (records f)) = records f \<and>
      (\<forall>c\<in>set (chunks_of 100000 (records f)). c \<noteq> [] \<and> length c \<le> 100000) \<and>
      (\<forall>c\<in>set (butlast (chunks_of 100000 (records f))). length c = 100000))"
proof (intro conjI impI)
  show "MAX_FILE_SIZE = 104857600" by (simp add: MAX_FILE_SIZE_def)
next
  assume "size_bytes f \<le> MAX_FILE_SIZE"
  then show "route (size_bytes f) = WHOLE_FILE"
    and "pivot_file re cfg f =
        (case filter_then_pivot re cfg (read_frame True (header f) (records f)) of
           Inl e \<Rightarrow> Inl e | Inr t \<Rightarrow> Inr (Some t))"
    by (simp_all add: route_def pivot_file_def pivot_whole_file_def)
next
  assume "MAX_FILE_SIZE < size_bytes f"
  then show "route (size_bytes f) = CHUNKED"
    and "pivot_file re cfg f =
        pivot_chunks re cfg
          (map (read_frame False (header f))
             (if records f = [] then [[]] else chunks_of 100000 (records f))) None"
    by (simp_all add: route_def pivot_file_def pivot_chunked_file_def read_csv_chunks_def)
next
  show "concat (chunks_of 100000 (records f)) = records f"
    by (simp add: concat_chunks_of)
  show "\<forall>c\<in>set (chunks_of 100000 (records f)). c \<noteq> [] \<and> length c \<le> 100000"
    using chunks_of_nonempty chunks_of_length by blast
  show "\<forall>c\<in>set (butlast (chunks_of 100000 (records f))). length c = 100000"
    using chunks_of_full by blast
qed

theorem pivot_file_routing_witness:
  "size_bytes (csv_example [[''NY'', ''Blue'']]) \<le> MAX_FILE_SIZE \<and>
   route (size_bytes (csv_example [[''NY'', ''Blue'']])) = WHOLE_FILE \<and>
   pivot_file literal_re plain_config (csv_example [[''NY'', ''Blue'']])
     = Inr (Some [((''NY'', ''Blue''), 1)]) \<and>
   MAX_FILE_SIZE < size_bytes big_csv \<and>
   route (size_bytes big_csv) = CHUNKED \<and>
   concat (chunks_of 100000 (records big_csv)) = records big_csv"
proof -
  let ?f = "csv_example [[''NY'', ''Blue'']]"
  have s: "size_bytes ?f \<le> MAX_FILE_SIZE"
    by (simp add: csv_example_def csv_bytes_def key_columns_def MAX_FILE_SIZE_def)
  have b: "MAX_FILE_SIZE < size_bytes big_csv"
    by (simp add: big_csv_def MAX_FILE_SIZE_def csv_bytes_def key_columns_def sum_list_replicate)
  have w: "filter_then_pivot literal_re plain_config (read_frame True (header ?f) (records ?f))
      = Inr [((''NY'', ''Blue''), 1)]"
    by (simp add: pipeline_defs reader_defs example_defs)
  from pivot_file_routing [of ?f literal_re plain_config] s
  have "route (size_bytes ?f) = WHOLE_FILE"
    and "pivot_file literal_re plain_config ?f = Inr (Some [((''NY'', ''Blue''), 1)])"
    by (simp_all add: w)
  moreover from pivot_file_routing [of big_csv] b
  have "route (size_bytes big_csv) = CHUNKED"
    and "concat (chunks_of 100000 (records big_csv)) = records big_csv"
    by blast+
  ultimately show ?thesis using s b by blast
qed

text \<open>C10 as stated fails at the threshold itself: a file of exactly 100 MiB is read
  at once.\<close>

theorem pivot_file_routing_counterexample:
  "MAX_FILE_SIZE = 100 * 2 ^ 20 \<and> route (100 * 2 ^ 20) = WHOLE_FILE"
  by (simp add: route_def MAX_FILE_SIZE_def)

section \<open>The loop over the additional filters\<close>

lemma additional_filter_loop_log_irrelevant:
  "without_log (additional_filter_loop re fs df log)
     = without_log (additional_filter_loop re fs df log')"
proof (induction fs arbitrary: df log log')
  case Nil
  then show ?case by (simp add: without_log_def)
next
  case (Cons f fs)
  obtain c p where f: "f = (c, p)" by (cases f)
  show ?case
    unfolding f additional_filter_loop.simps
    using Cons.IH by (simp add: without_log_def split: if_splits)
qed

lemma additional_filter_loop_log_grows:
  "additional_filter_loop re fs df log = Inr (d, log') \<Longrightarrow> set log \<subseteq> set log'"
proof (induction fs arbitrary: df log)
  case Nil
  then show ?case by simp
next
  case (Cons f fs)
  obtain c p where f: "f = (c, p)" by (cases f)
  from Cons.prems show ?case
    unfolding f additional_filter_loop.simps
    by (auto split: if_splits dest!: Cons.IH)
qed

lemma additional_filter_loop_skips:
  assumes "c \<notin> set (columns df)"
  shows "without_log (additional_filter_loop re (fs1 @ (c, p) # fs2) df log)
           = without_log (additional_filter_loop re (fs1 @ fs2) df log)"
  using assms
proof (induction fs1 arbitrary: df log)
  case Nil
  then show ?case
    using additional_filter_loop_log_irrelevant [of re fs2 df "log @ [skip_message c]" log]
    by simp
next
  case (Cons f fs1)
  obtain c' p' where f: "f = (c', p')" by (cases f)
  show ?case
    using Cons.prems by (simp add: f Cons.IH)
qed

lemma additional_filter_loop_logs_skip:
  assumes "c \<notin> set (columns df)"
    and "additional_filter_loop re (fs1 @ (c, p) # fs2) df log = Inr (d, log')"
  shows "skip_message c \<in> set log'"
  using assms
proof (induction fs1 arbitrary: df log)
  case Nil
  then show ?case
    using additional_filter_loop_log_grows [of re fs2 df "log @ [skip_message c]" d log']
    by simp
next
  case (Cons f fs1)
  obtain c' p' where f: "f = (c', p')" by (cases f)
  from Cons.prems show ?case
    by (auto simp: f split: if_splits dest: Cons.IH [rotated])
qed

section \<open>A filter on a missing column\<close>

lemma exclude_rows_columns:
  "exclude_rows re col pat d = Inr d' \<Longrightarrow> columns d' = columns d"
  by (auto simp: exclude_rows_def split: if_splits)

text \<open>The two exclusions, which do not look at the additional filters.\<close>

lemma filter_dataframe_stages:
  "(\<exists>e. \<forall>fs. filter_dataframe re (cfg\<lparr>additional_filters := fs\<rparr>) df = Inl e) \<or>
   (\<exists>df2. columns df2 = columns (dropna_columns df) \<and>
      (\<forall>fs. filter_dataframe re (cfg\<lparr>additional_filters := fs\<rparr>) df
             = additional_filter_loop re fs (fillna_str df2) []))"
proof -
  define s1 where "s1 = (if main_column_exclude cfg \<noteq> []
            then exclude_rows re (main_column cfg) (main_column_exclude cfg) (dropna_columns df)
            else Inr (dropna_columns df))"
  have unfold1: "filter_dataframe re (cfg\<lparr>additional_filters := fs\<rparr>) df =
     (case s1 of Inl e \<Rightarrow> Inl e
      | Inr df1 \<Rightarrow>
         (case (if secondary_column_exclude cfg \<noteq> []
                then exclude_rows re (secondary_column cfg) (secondary_column_exclude cfg) df1
                else Inr df1) of
            Inl e \<Rightarrow> Inl e
          | Inr df2 \<Rightarrow> additional_filter_loop re fs (fillna_str df2) []))" for fs
    by (simp add: filter_dataframe_def s1_def split del: if_split cong: sum.case_cong if_cong)
  show ?thesis
  proof (cases s1)
    case (Inl e)
    then have "\<forall>fs. filter_dataframe re (cfg\<lparr>additional_filters := fs\<rparr>) df = Inl e"
      by (simp add: unfold1)
    then show ?thesis by blast
  next
    case (Inr df1)
    then have c1: "columns df1 = columns (dropna_columns df)"
      by (auto simp: s1_def split: if_splits dest: exclude_rows_columns)
    define s2 where "s2 = (if secondary_column_exclude cfg \<noteq> []
                then exclude_rows re (secondary_column cfg) (secondary_column_exclude cfg) df1
                else Inr df1)"
    show ?thesis
    proof (cases s2)
      case (Inl e)
      then have "\<forall>fs. filter_dataframe re (cfg\<lparr>additional_filters := fs\<rparr>) df = Inl e"
        using Inr by (simp add: unfold1 s2_def [symmetric])
      then show ?thesis by blast
    next
      case r2: (Inr df2)
      then have "columns df2 = columns df1"
        by (auto simp: s2_def split: if_splits dest: exclude_rows_columns)
      with c1 have "columns df2 = columns (dropna_columns df)" by simp
      moreover have "\<forall>fs. filter_dataframe re (cfg\<lparr>additional_filters := fs\<rparr>) df
             = additional_filter_loop re fs (fillna_str df2) []"
        using Inr r2 by (simp add: unfold1 s2_def [symmetric])
      ultimately show ?thesis by blast
    qed
  qed
qed

lemma row_key_additional_filters: "row_key (cfg\<lparr>additional_filters := fs\<rparr>) = row_key cfg"
  by (simp add: fun_eq_iff row_key_def cong: option.case_cong)

lemma overwritten_key_additional_filters:
  "overwritten_key (cfg\<lparr>additional_filters := fs\<rparr>) = overwritten_key cfg"
  by (simp add: fun_eq_iff overwritten_key_def)

lemma pivot_table_additional_filters:
  "pivot_table (cfg\<lparr>additional_filters := fs\<rparr>) d = pivot_table cfg d"
  by (simp add: pivot_table_def row_key_additional_filters overwritten_key_additional_filters
        count_column_def)

lemma filter_then_pivot_without_log:
  "filter_then_pivot re cfg df =
     (case without_log (filter_dataframe re cfg df) of Inl e \<Rightarrow> Inl e | Inr d \<Rightarrow> pivot_table cfg d)"
  by (simp add: filter_then_pivot_def without_log_def split: sum.split prod.split)

text \<open>
  C6. An additional filter on a column that the batch does not have (after
  \<^verbatim>\<open>dropna\<close>) changes nothing but the log: the frame or the exception that
  \<^verbatim>\<open>filter_dataframe\<close> gives, and the table aggregated from it, are those of the
  configuration without that filter, whatever filters come before and after it; and the
  log of a run that returns has the message of the skipped filter.
\<close>

theorem missing_filter_column_skipped:
  assumes "c \<notin> set (columns (dropna_columns df))"
  shows "without_log (filter_dataframe re (cfg\<lparr>additional_filters := fs1 @ (c, p) # fs2\<rparr>) df)
           = without_log (filter_dataframe re (cfg\<lparr>additional_filters := fs1 @ fs2\<rparr>) df) \<and>
         filter_then_pivot re (cfg\<lparr>additional_filters := fs1 @ (c, p) # fs2\<rparr>) df
           = filter_then_pivot re (cfg\<lparr>additional_filters := fs1 @ fs2\<rparr>) df \<and>
         (\<forall>d log. filter_dataframe re (cfg\<lparr>additional_filters := fs1 @ (c, p) # fs2\<rparr>) df = Inr (d, log)
            \<longrightarrow> skip_message c \<in> set log)"
proof -
  let ?with = "cfg\<lparr>additional_filters := fs1 @ (c, p) # fs2\<rparr>"
  let ?without = "cfg\<lparr>additional_filters := fs1 @ fs2\<rparr>"
  have frames: "without_log (filter_dataframe re ?with df) = without_log (filter_dataframe re ?without df)"
    and logs: "\<forall>d log. filter_dataframe re ?with df = Inr (d, log) \<longrightarrow> skip_message c \<in> set log"
  proof -
    from filter_dataframe_stages [of re cfg df]
    consider (err) e where "\<forall>fs. filter_dataframe re (cfg\<lparr>additional_filters := fs\<rparr>) df = Inl e"
      | (loop) df2 where "columns df2 = columns (dropna_columns df)"
          "\<forall>fs. filter_dataframe re (cfg\<lparr>additional_filters := fs\<rparr>) df
             = additional_filter_loop re fs (fillna_str df2) []"
      by blast
    then have "without_log (filter_dataframe re ?with df) = without_log (filter_dataframe re ?without df)
      \<and> (\<forall>d log. filter_dataframe re ?with df = Inr (d, log) \<longrightarrow> skip_message c \<in> set log)"
    proof cases
      case err
      then show ?thesis by simp
    next
      case loop
      from loop(1) assms have absent: "c \<notin> set (columns (fillna_str df2))"
        by (simp add: fillna_str_def)
      show ?thesis
        using additional_filter_loop_skips [OF absent, of re fs1 p fs2 "[]"]
          additional_filter_loop_logs_skip [OF absent, of re fs1 p fs2 "[]"]
        by (simp add: loop(2))
    qed
    then show "without_log (filter_dataframe re ?with df) = without_log (filter_dataframe re ?without df)"
      and "\<forall>d log. filter_dataframe re ?with df = Inr (d, log) \<longrightarrow> skip_message c \<in> set log"
      by simp_all
  qed
  have "filter_then_pivot re ?with df = filter_then_pivot re ?without df"
    by (simp only: filter_then_pivot_without_log frames pivot_table_additional_filters)
  with frames logs show ?thesis by simp
qed

theorem missing_filter_column_skipped_witness:
  "''Follow'' \<notin> set (columns (dropna_columns \<lparr>columns = key_columns, rows = [ny_blue, la_red]\<rparr>)) \<and>
   filter_then_pivot literal_re (plain_config\<lparr>additional_filters := [(''Follow'', ''true'')]\<rparr>)
     \<lparr>columns = key_columns, rows = [ny_blue, la_red]\<rparr>
     = Inr [((''LA'', ''Red''), 1), ((''NY'', ''Blue''), 1)] \<and>
   without_log (filter_dataframe literal_re (plain_config\<lparr>additional_filters := [(''Follow'', ''true'')]\<rparr>)
     \<lparr>columns = key_columns, rows = [ny_blue, la_red]\<rparr>)
     = without_log (filter_dataframe literal_re (plain_config\<lparr>additional_filters := []\<rparr>)
         \<lparr>columns = key_columns, rows = [ny_blue, la_red]\<rparr>)"
proof -
  let ?df = "\<lparr>columns = key_columns, rows = [ny_blue, la_red]\<rparr>"
  have h: "''Follow'' \<notin> set (columns (dropna_columns ?df))"
    by (simp add: dropna_columns_def example_defs)
  have w: "filter_then_pivot literal_re (plain_config\<lparr>additional_filters := []\<rparr>) ?df
      = Inr [((''LA'', ''Red''), 1), ((''NY'', ''Blue''), 1)]"
    by (simp add: pipeline_defs example_defs)
  from missing_filter_column_skipped [OF h, where re = literal_re and cfg = plain_config
      and ?fs1.0 = "[]" and p = "''true''" and ?fs2.0 = "[]"] h w
  show ?thesis by simp
qed

section \<open>Count conservation\<close>

lemma additional_filter_loop_rows:
  "additional_filter_loop re fs df log = Inr (d, log') \<Longrightarrow> set (rows d) \<subseteq> set (rows df)"
proof (induction fs arbitrary: df log)
  case Nil
  then show ?case by simp
next
  case (Cons f fs)
  obtain c p where f: "f = (c, p)" by (cases f)
  from Cons.prems show ?case
    unfolding f additional_filter_loop.simps
    by (auto split: if_splits dest!: Cons.IH)
qed

text \<open>After \<^verbatim>\<open>filter_dataframe\<close> no cell is NaN.\<close>

lemma filter_dataframe_filled:
  assumes "filter_dataframe re cfg df = Inr (fd, log)" "r \<in> set (rows fd)"
  shows "r c \<noteq> None"
proof -
  from assms(1) obtain df2 where "additional_filter_loop re (additional_filters cfg) (fillna_str df2) [] = Inr (fd, log)"
    by (auto simp: filter_dataframe_def split: sum.splits)
  from additional_filter_loop_rows [OF this] assms(2)
  have "r \<in> set (rows (fillna_str df2))" by blast
  then show ?thesis by (auto simp: fillna_str_def fillna_row_def)
qed

lemma length_map_filter_total:
  "\<forall>x\<in>set xs. f x \<noteq> None \<Longrightarrow> length (List.map_filter f xs) = length xs"
  by (simp add: List.map_filter_def filter_id_conv [THEN iffD2])

text \<open>
  For a frame that \<^verbatim>\<open>filter_dataframe\<close> returns and a main column that is not named as
  the count column, \<^verbatim>\<open>pivot_table\<close> returns a table when the frame has the two key
  columns, and the counts of the table it returns add up to the number of rows of the
  frame whose stripped secondary value is not empty; no index entry of the table has a
  secondary value that strips to the empty string.
\<close>

lemma count_conservation:
  assumes "filter_dataframe re cfg df = Inr (fd, log)"
    and "count_column cfg \<noteq> main_column cfg"
  shows "(secondary_column cfg \<in> set (columns fd) \<and> main_column cfg \<in> set (columns fd)
            \<longrightarrow> (\<exists>t. pivot_table cfg fd = Inr t)) \<and>
         (\<forall>t. pivot_table cfg fd = Inr t \<longrightarrow>
            sum_list (map snd t) =
              length (filter (\<lambda>r. case r (secondary_column cfg) of
                                     None \<Rightarrow> False
                                   | Some s \<Rightarrow> str_strip s \<noteq> []) (rows fd)) \<and>
            (\<forall>k\<in>fst ` set t. str_strip (snd k) \<noteq> []))"
proof (intro conjI allI impI)
  assume "secondary_column cfg \<in> set (columns fd) \<and> main_column cfg \<in> set (columns fd)"
  then show "\<exists>t. pivot_table cfg fd = Inr t"
    using assms(2) by (simp add: pivot_table_def)
next
  fix t
  assume t: "pivot_table cfg fd = Inr t"
  let ?kept = "filter (\<lambda>r. strip_nonempty (r (secondary_column cfg))) (rows fd)"
  let ?keys = "List.map_filter (row_key cfg) ?kept"
  from t assms(2) have tk: "t = count_groups 1 ?keys"
    by (simp add: pivot_table_def split: if_splits)
  have filled: "r c \<noteq> None" if "r \<in> set (rows fd)" for r c
    using filter_dataframe_filled [OF assms(1) that] .
  have keyed: "\<forall>r\<in>set ?kept. row_key cfg r \<noteq> None"
  proof
    fix r
    assume "r \<in> set ?kept"
    then have r: "r \<in> set (rows fd)" by simp
    from filled [OF r, of "main_column cfg"] filled [OF r, of "secondary_column cfg"]
    show "row_key cfg r \<noteq> None"
      by (auto simp: row_key_def)
  qed
  have same: "(case r (secondary_column cfg) of None \<Rightarrow> False
                | Some s \<Rightarrow> str_strip s \<noteq> []) = strip_nonempty (r (secondary_column cfg))"
    if "r \<in> set (rows fd)" for r
    using filled [OF that, of "secondary_column cfg"] by (auto simp: strip_nonempty_def)
  have "sum_list (map snd t) = length ?keys"
    by (simp only: tk sum_count_groups nat_mult_1)
  also have "\<dots> = length ?kept"
    using keyed by (rule length_map_filter_total)
  also have "?kept = filter (\<lambda>r. case r (secondary_column cfg) of
                                     None \<Rightarrow> False
                                   | Some s \<Rightarrow> str_strip s \<noteq> []) (rows fd)"
    using same by (auto intro: filter_cong)
  finally show "sum_list (map snd t) =
              length (filter (\<lambda>r. case r (secondary_column cfg) of
                                     None \<Rightarrow> False
                                   | Some s \<Rightarrow> str_strip s \<noteq> []) (rows fd))" .
  show "\<forall>k\<in>fst ` set t. str_strip (snd k) \<noteq> []"
  proof
    fix k
    assume "k \<in> fst ` set t"
    then have "k \<in> set ?keys"
      using arg_cong [OF keys_count_groups, of set 1 ?keys] by (simp add: tk)
    then obtain r where r: "r \<in> set ?kept" "row_key cfg r = Some k"
      by (auto simp: List.map_filter_def)
    from r(1) have "strip_nonempty (r (secondary_column cfg))" by simp
    moreover from r(2) have "r (secondary_column cfg) = Some (snd k)"
      by (auto simp: row_key_def split: option.splits)
    ultimately show "str_strip (snd k) \<noteq> []"
      by (simp add: strip_nonempty_def)
  qed
qed

text \<open>The rows of the end-to-end example, with two more rows whose secondary values are
  spaces and a no-break space: the three rows with a blank secondary value are not
  counted.\<close>

lemma count_conservation_example:
  "filter_then_pivot literal_re plain_config
     \<lparr>columns = key_columns, rows = [ny_blue, ny_blue, ny_blank, ny_spaces, ny_nbsp, la_red]\<rparr>
   = Inr [((''LA'', ''Red''), 1), ((''NY'', ''Blue''), 2)]"
  by (simp add: pipeline_defs example_defs ny_spaces_def ny_nbsp_def)

text \<open>
  C8 fails on the code. With the main column named \<open>Count of Anchor\<close>, the assignment
  \<^verbatim>\<open>new_df[count_column] = 1\<close> overwrites the main column, and the pivot counts two
  cells for each row: for two rows that pass the filters, with secondary values that
  are not blank, the counts of the table add up to four, and both keys have the main
  value 1.
\<close>

theorem count_column_overwrites_main:
  "filter_dataframe literal_re recount_config
     \<lparr>columns = recount_columns, rows = [blue_twice, red_once]\<rparr>
   = Inr (\<lparr>columns = recount_columns, rows = map fillna_row [blue_twice, red_once]\<rparr>, []) \<and>
   pivot_table recount_config
     \<lparr>columns = recount_columns, rows = map fillna_row [blue_twice, red_once]\<rparr>
   = Inr [((''1'', ''Blue''), 2), ((''1'', ''Red''), 2)] \<and>
   sum_list (map snd [((''1'', ''Blue''), 2::nat), ((''1'', ''Red''), 2)]) = 4 \<and>
   length (filter (\<lambda>r. case r (secondary_column recount_config) of
                          None \<Rightarrow> False
                        | Some s \<Rightarrow> str_strip s \<noteq> [])
             (map fillna_row [blue_twice, red_once])) = 2"
  by (simp add: filter_dataframe_def dropna_columns_def fillna_str_def fillna_row_def
        pivot_table_def count_column_def count_groups_def overwritten_key_def strip_nonempty_def
        str_strip_def is_space1_def is_space2_def is_space3_def List.map_filter_def
        recount_config_def recount_columns_def blue_twice_def red_once_def)

section \<open>The invariant of the pivot tables\<close>

lemma pivot_table_invariant:
  "pivot_table cfg df = Inr t \<Longrightarrow> index_sorted t \<and> positive_counts t"
  by (auto simp: pivot_table_def index_sorted_count_groups positive_count_groups split: if_splits)

lemma pivot_chunks_invariant:
  assumes "pivot_chunks re cfg chunks acc = Inr (Some t)"
    and "\<forall>a. acc = Some a \<longrightarrow> index_sorted a \<and> positive_counts a"
  shows "index_sorted t \<and> positive_counts t"
  using assms
proof (induction chunks arbitrary: acc)
  case Nil
  then show ?case by simp
next
  case (Cons chunk reader)
  from Cons.prems(1) obtain pc where pc: "filter_then_pivot re cfg chunk = Inr pc"
    and rest: "pivot_chunks re cfg reader
                 (if pc = [] then acc
                  else Some (case acc of None \<Rightarrow> pc | Some a \<Rightarrow> merge a pc)) = Inr (Some t)"
    by (auto simp: pivot_chunks_step simp del: pivot_chunks.simps split: sum.splits if_splits)
  from pc have ok: "index_sorted pc \<and> positive_counts pc"
    by (auto simp: filter_then_pivot_def split: sum.splits dest: pivot_table_invariant)
  have "\<forall>a. (if pc = [] then acc
              else Some (case acc of None \<Rightarrow> pc | Some a \<Rightarrow> merge a pc)) = Some a
           \<longrightarrow> index_sorted a \<and> positive_counts a"
    using Cons.prems(2) ok
    by (auto simp: index_sorted_merge positive_counts_merge split: option.splits)
  from Cons.IH [OF rest this] show ?case .
qed

text \<open>
  C9. Every table that \<^verbatim>\<open>pivot_table\<close> returns, every merge of two tables with distinct
  index entries and counts of at least one, and every table that the chunk loop returns
  has distinct index entries and counts of at least one.
\<close>

theorem count_table_invariant:
  "(\<forall>t. pivot_table cfg df = Inr t \<longrightarrow> distinct (map fst t) \<and> positive_counts t) \<and>
   (distinct (map fst a) \<and> positive_counts a \<and> distinct (map fst b) \<and> positive_counts b \<longrightarrow>
      distinct (map fst (merge a b)) \<and> positive_counts (merge a b)) \<and>
   (\<forall>t. pivot_chunks re cfg chunks None = Inr (Some t) \<longrightarrow>
      distinct (map fst t) \<and> positive_counts t)"
proof (intro conjI allI impI)
  fix t
  assume "pivot_table cfg df = Inr t"
  from pivot_table_invariant [OF this]
  show "distinct (map fst t)" and "positive_counts t"
    by (simp_all add: index_sorted_def)
next
  assume "distinct (map fst a) \<and> positive_counts a \<and> distinct (map fst b) \<and> positive_counts b"
  then show "positive_counts (merge a b)"
    by (simp add: positive_counts_merge)
  show "distinct (map fst (merge a b))"
    using index_sorted_merge [of a b] by (simp add: index_sorted_def)
next
  fix t
  assume "pivot_chunks re cfg chunks None = Inr (Some t)"
  from pivot_chunks_invariant [OF this]
  show "distinct (map fst t)" and "positive_counts t"
    by (simp_all add: index_sorted_def)
qed

theorem count_table_invariant_witness:
  "pivot_table plain_config \<lparr>columns = key_columns, rows = [ny_blue, ny_blank, ny_blue]\<rparr>
     = Inr [((''NY'', ''Blue''), 2)] \<and>
   distinct (map fst [((''NY'', ''Blue''), 2::nat)]) \<and> positive_counts [((''NY'', ''Blue''), 2)] \<and>
   distinct (map fst [((''LA'', ''Red''), 1::nat)]) \<and> positive_counts [((''LA'', ''Red''), 1)] \<and>
   merge [((''NY'', ''Blue''), 2)] [((''LA'', ''Red''), 1)]
     = [((''LA'', ''Red''), 1), ((''NY'', ''Blue''), 2)] \<and>
   distinct (map fst (merge [((''NY'', ''Blue''), 2)] [((''LA'', ''Red''), 1)])) \<and>
   positive_counts (merge [((''NY'', ''Blue''), 2)] [((''LA'', ''Red''), 1)])"
proof -
  let ?df = "\<lparr>columns = key_columns, rows = [ny_blue, ny_blank, ny_blue]\<rparr>"
  have p: "pivot_table plain_config ?df = Inr [((''NY'', ''Blue''), 2)]"
    by (simp add: pipeline_defs example_defs)
  have m: "merge [((''NY'', ''Blue''), 2)] [((''LA'', ''Red''), 1)]
     = [((''LA'', ''Red''), 1), ((''NY'', ''Blue''), 2)]"
    by (simp add: merge_def count_or_zero_def)
  from count_table_invariant [of plain_config ?df "[((''NY'', ''Blue''), 2)]" "[((''LA'', ''Red''), 1)]"] p
  have a: "distinct (map fst [((''NY'', ''Blue''), 2::nat)]) \<and> positive_counts [((''NY'', ''Blue''), 2)]"
    by blast
  have b: "distinct (map fst [((''LA'', ''Red''), 1::nat)]) \<and> positive_counts [((''LA'', ''Red''), 1)]"
    by (simp add: positive_counts_def)
  from count_table_invariant [of plain_config ?df "[((''NY'', ''Blue''), 2)]" "[((''LA'', ''Red''), 1)]"] a b
  have "distinct (map fst (merge [((''NY'', ''Blue''), 2)] [((''LA'', ''Red''), 1)])) \<and>
   positive_counts (merge [((''NY'', ''Blue''), 2)] [((''LA'', ''Red''), 1)])"
    by blast
  with p m a b show ?thesis by blast
qed

section \<open>A file without a key column\<close>

lemma additional_filter_loop_columns:
  "additional_filter_loop re fs df log = Inr (d, log') \<Longrightarrow> columns d = columns df"
proof (induction fs arbitrary: df log)
  case Nil
  then show ?case by simp
next
  case (Cons f fs)
  obtain c p where f: "f = (c, p)" by (cases f)
  from Cons.prems show ?case
    unfolding f additional_filter_loop.simps
    by (auto split: if_splits dest!: Cons.IH)
qed

lemma additional_filter_loop_error:
  "additional_filter_loop re fs df log = Inl e \<Longrightarrow> e \<noteq> ZeroDivisionError"
proof (induction fs arbitrary: df log)
  case Nil
  then show ?case by simp
next
  case (Cons f fs)
  obtain c p where f: "f = (c, p)" by (cases f)
  from Cons.prems show ?case
    unfolding f additional_filter_loop.simps
    by (auto split: if_splits dest!: Cons.IH)
qed

lemma exclude_rows_error: "exclude_rows re col pat d = Inl e \<Longrightarrow> e \<noteq> ZeroDivisionError"
  by (auto simp: exclude_rows_def split: if_splits)

lemma filter_dataframe_columns:
  assumes "filter_dataframe re cfg df = Inr (d, log)"
  shows "set (columns d) \<subseteq> set (columns df)"
proof -
  from filter_dataframe_stages [of re cfg df]
  obtain df2 where c: "columns df2 = columns (dropna_columns df)"
    and l: "filter_dataframe re (cfg\<lparr>additional_filters := additional_filters cfg\<rparr>) df
             = additional_filter_loop re (additional_filters cfg) (fillna_str df2) []"
    using assms by (metis Inl_Inr_False config.update_convs(5) config.surjective)
  from l assms have "additional_filter_loop re (additional_filters cfg) (fillna_str df2) [] = Inr (d, log)"
    by simp
  from additional_filter_loop_columns [OF this] c
  show ?thesis by (auto simp: fillna_str_def dropna_columns_def)
qed

lemma filter_dataframe_error:
  "filter_dataframe re cfg df = Inl e \<Longrightarrow> e \<noteq> ZeroDivisionError"
  by (auto simp: filter_dataframe_def split: sum.splits if_splits
           dest: exclude_rows_error additional_filter_loop_error)

text \<open>Without one of the key columns, filtering and aggregating a frame raises.\<close>

lemma filter_then_pivot_missing_column:
  assumes "secondary_column cfg \<notin> set (columns df) \<or> main_column cfg \<notin> set (columns df)"
    and "count_column cfg \<noteq> main_column cfg"
  shows "\<exists>e. e \<noteq> ZeroDivisionError \<and> filter_then_pivot re cfg df = Inl e"
proof (cases "filter_dataframe re cfg df")
  case (Inl e)
  then show ?thesis
    by (auto simp: filter_then_pivot_def dest: filter_dataframe_error)
next
  case (Inr res)
  obtain d log where res: "res = (d, log)" by (cases res)
  from filter_dataframe_columns [of re cfg df d log] Inr assms(1)
  have "secondary_column cfg \<notin> set (columns d) \<or> main_column cfg \<notin> set (columns d)"
    by (auto simp: res)
  then have "\<exists>e. e \<noteq> ZeroDivisionError \<and> pivot_table cfg d = Inl e"
    using assms(2) by (auto simp: pivot_table_def)
  then show ?thesis
    by (simp add: filter_then_pivot_def Inr res)
qed

text \<open>A file without one of the key columns raises in either mode, and the exception
  ends the run of \<^verbatim>\<open>main\<close>, whatever files follow (when the count column does not take
  the place of the main column).\<close>

lemma missing_key_column_ends_run:
  assumes "secondary_column cfg \<notin> set (header f) \<or> main_column cfg \<notin> set (header f)"
    and "count_column cfg \<noteq> main_column cfg"
  shows "\<exists>e. e \<noteq> ZeroDivisionError \<and> pivot_file re cfg f = Inl e \<and>
             main_loop re cfg (f # fs) = Inl e"
proof -
  have "\<exists>e. e \<noteq> ZeroDivisionError \<and> pivot_file re cfg f = Inl e"
  proof (cases "route (size_bytes f)")
    case WHOLE_FILE
    from filter_then_pivot_missing_column [of cfg "read_frame True (header f) (records f)" re] assms
    obtain e where "e \<noteq> ZeroDivisionError"
      "filter_then_pivot re cfg (read_frame True (header f) (records f)) = Inl e"
      by (auto simp: read_frame_def)
    then show ?thesis
      by (auto simp: pivot_file_def WHOLE_FILE pivot_whole_file_def)
  next
    case CHUNKED
    obtain c cs where chunks: "read_csv_chunks 100000 f = read_frame False (header f) c # cs"
    proof (cases "records f = []")
      case True
      then show ?thesis using that by (simp add: read_csv_chunks_def)
    next
      case False
      then have "chunks_of 100000 (records f) \<noteq> []" by (simp add: chunks_of_Nil_iff)
      then obtain c cs where "chunks_of 100000 (records f) = c # cs"
        by (cases "chunks_of 100000 (records f)") auto
      then show ?thesis using that False by (simp add: read_csv_chunks_def)
    qed
    from filter_then_pivot_missing_column [of cfg "read_frame False (header f) c" re] assms
    obtain e where "e \<noteq> ZeroDivisionError"
      "filter_then_pivot re cfg (read_frame False (header f) c) = Inl e"
      by (auto simp: read_frame_def)
    then show ?thesis
      by (auto simp: pivot_file_def CHUNKED pivot_chunked_file_def chunks pivot_chunks_step
               simp del: pivot_chunks.simps)
  qed
  then obtain e where "e \<noteq> ZeroDivisionError" "pivot_file re cfg f = Inl e" by blast
  then show ?thesis by (auto simp: process_file_def)
qed

end
